theory Spec2Isabelle
  imports Main "HOL-Library.Sublist"
begin

section \<open>JavaScript strings\<close>

text \<open>
  A JavaScript string is a sequence of code units; every operation of
  \<^verbatim>\<open>src/fetchers.js\<close> works on indices and compares code units with the ASCII
  characters \<^verbatim>\<open>/\<close>, \<^verbatim>\<open>.\<close> and \<^verbatim>\<open>,\<close> only, so a string is modelled as a list of
  characters. Indices are \<open>int\<close>, because \<^verbatim>\<open>lastIndexOf\<close> answers \<open>-1\<close> when
  the character does not occur.
\<close>

fun lastIndexOf :: "string \<Rightarrow> char \<Rightarrow> int" where
  "lastIndexOf [] c = -1"
| "lastIndexOf (x # xs) c =
     (let r = lastIndexOf xs c
      in if 0 \<le> r then r + 1 else if x = c then 0 else -1)"

text \<open>
  \<^verbatim>\<open>s.substring(a, b)\<close>: both indices are clamped to \<open>[0, length s]\<close> and swapped
  when \<open>a > b\<close>; \<^verbatim>\<open>s.substring(a)\<close> runs to the end of the string.
\<close>

definition clamp_index :: "string \<Rightarrow> int \<Rightarrow> nat" where
  "clamp_index s i = min (nat i) (length s)"

definition substring :: "string \<Rightarrow> int \<Rightarrow> int \<Rightarrow> string" where
  "substring s a b =
     (let a' = clamp_index s a; b' = clamp_index s b;
          lo = min a' b'; hi = max a' b'
      in take (hi - lo) (drop lo s))"

definition substring_from :: "string \<Rightarrow> int \<Rightarrow> string" where
  "substring_from s a = drop (clamp_index s a) s"

definition startsWith :: "string \<Rightarrow> string \<Rightarrow> bool" where
  "startsWith s p = (take (length p) s = p)"

definition endsWith :: "string \<Rightarrow> string \<Rightarrow> bool" where
  "endsWith s p = (length p \<le> length s \<and> drop (length s - length p) s = p)"

text \<open>\<^verbatim>\<open>s.split(c)\<close> for a one-character separator; the result is never empty.\<close>

fun split :: "char \<Rightarrow> string \<Rightarrow> string list" where
  "split c [] = [[]]"
| "split c (x # xs) =
     (if x = c then [] # split c xs
      else (case split c xs of
              [] \<Rightarrow> [[x]]
            | y # ys \<Rightarrow> (x # y) # ys))"

text \<open>\<^verbatim>\<open>segs.join('/')\<close>.\<close>

fun join :: "string list \<Rightarrow> string" where
  "join [] = []"
| "join [s] = s"
| "join (s # t # ts) = s @ CHR ''/'' # join (t # ts)"

text \<open>
  \<^verbatim>\<open>urlPath.replace(/\/+/, '/')\<close>: the regular expression has no \<^verbatim>\<open>g\<close> flag, so
  only the first (leftmost, maximal) run of slashes is replaced by one slash.
\<close>

fun replace_slashes :: "string \<Rightarrow> string" where
  "replace_slashes [] = []"
| "replace_slashes (c # cs) =
     (if c = CHR ''/'' then CHR ''/'' # dropWhile (\<lambda>x. x = CHR ''/'') cs
      else c # replace_slashes cs)"

text \<open>
  What the specification describes instead: every run of consecutive slashes
  collapsed to a single slash.
\<close>

fun collapse_all_separators :: "string \<Rightarrow> string" where
  "collapse_all_separators (a # b # cs) =
     (if a = CHR ''/'' \<and> b = CHR ''/'' then collapse_all_separators (b # cs)
      else a # collapse_all_separators (b # cs))"
| "collapse_all_separators cs = cs"

section \<open>\<^verbatim>\<open>path.posix.resolve\<close> of Node.js\<close>

text \<open>
  \<^verbatim>\<open>require('path').posix\<close> belongs to the platform. \<^verbatim>\<open>resolve\<close> walks its
  arguments from right to left, skipping empty ones and prepending each to the
  path built so far, until an argument starts with a slash; when none does, the
  working directory of the process (\<open>cwd\<close>, a parameter here) is prepended last.
  The concatenation is then normalised segment by segment: empty segments and
  \<^verbatim>\<open>.\<close> are dropped, \<^verbatim>\<open>..\<close> removes the segment before it (and is kept only
  above the root of a relative path).
\<close>

fun resolve_loop :: "string list \<Rightarrow> string \<Rightarrow> string \<times> bool" where
  "resolve_loop [] resolvedPath = (resolvedPath, False)"
| "resolve_loop (p # ps) resolvedPath =
     (if p = [] then resolve_loop ps resolvedPath
      else if hd p = CHR ''/'' then (p @ CHR ''/'' # resolvedPath, True)
      else resolve_loop ps (p @ CHR ''/'' # resolvedPath))"

fun normalize_segments :: "bool \<Rightarrow> string list \<Rightarrow> string list \<Rightarrow> string list" where
  "normalize_segments allowAboveRoot [] res = rev res"
| "normalize_segments allowAboveRoot (s # ss) res =
     (if s = [] \<or> s = ''.'' then normalize_segments allowAboveRoot ss res
      else if s = ''..'' then
        (if res = [] \<or> hd res = ''..''
         then normalize_segments allowAboveRoot ss
                (if allowAboveRoot then ''..'' # res else res)
         else normalize_segments allowAboveRoot ss (tl res))
      else normalize_segments allowAboveRoot ss (s # res))"

definition normalizeString :: "string \<Rightarrow> bool \<Rightarrow> string" where
  "normalizeString p allowAboveRoot =
     join (normalize_segments allowAboveRoot (split CHR ''/'' p) [])"

definition path_resolve :: "string \<Rightarrow> string list \<Rightarrow> string" where
  "path_resolve cwd args =
     (case resolve_loop (rev args @ [cwd]) [] of
        (resolvedPath, resolvedAbsolute) \<Rightarrow>
          (let n = normalizeString resolvedPath (\<not> resolvedAbsolute)
           in if resolvedAbsolute then CHR ''/'' # n
              else if n \<noteq> [] then n else ''.''))"

section \<open>Path resolution: \<^verbatim>\<open>unique\<close> and \<^verbatim>\<open>getPathInfos\<close>\<close>

text \<open>An error thrown or a promise rejected: the message and the optional status code.\<close>

record js_error =
  message :: string
  err_statusCode :: "int option"

definition Error :: "string \<Rightarrow> js_error" where
  "Error msg = \<lparr>message = msg, err_statusCode = None\<rparr>"

record path_info =
  path :: string
  name :: string
  selector :: string
  ext :: string
  relPath :: string

text \<open>The order-preserving uniqueness filter: a left fold that appends unseen items.\<close>

definition unique :: "'a list \<Rightarrow> 'a list" where
  "unique arr =
     foldl (\<lambda>retval item. if item \<in> set retval then retval else retval @ [item]) [] arr"

text \<open>
  \<^verbatim>\<open>Array.prototype.map\<close> with a callback that may throw: the first exception
  leaves the loop and is the result.
\<close>

fun map_throw :: "('a \<Rightarrow> js_error + 'b) \<Rightarrow> 'a list \<Rightarrow> js_error + 'b list" where
  "map_throw f [] = Inr []"
| "map_throw f (x # xs) =
     (case f x of
        Inl e \<Rightarrow> Inl e
      | Inr y \<Rightarrow> (case map_throw f xs of Inl e \<Rightarrow> Inl e | Inr ys \<Rightarrow> Inr (y # ys)))"

text \<open>Step 2 of \<^verbatim>\<open>getPathInfos\<close>: the candidate URLs, before deduplication.\<close>

definition urls :: "string \<Rightarrow> string \<Rightarrow> string list \<Rightarrow> string list" where
  "urls cwd urlPath0 indices =
     (let urlPath = replace_slashes urlPath0
      in if lastIndexOf urlPath CHR ''.'' \<le> lastIndexOf urlPath CHR ''/'' then
           (if urlPath = [] \<or> endsWith urlPath ''/'' then
              map (\<lambda>index. path_resolve cwd [if urlPath = [] then ''/'' else urlPath, index]) indices
            else [path_resolve cwd [urlPath] @ ''.html''])
         else [urlPath])"

text \<open>The callback of the final \<^verbatim>\<open>map\<close>: one candidate URL to its path info.\<close>

definition path_info_of :: "string \<Rightarrow> string \<Rightarrow> js_error + path_info" where
  "path_info_of mount url =
     (let lastSlash = lastIndexOf url CHR ''/'';
          lastDot = lastIndexOf url CHR ''.''
      in if lastDot \<le> lastSlash then
           Inl (Error ''directory index must have an extension.'')
         else
           (let ext0 = substring_from url (lastDot + 1);
                name0 = substring url (lastSlash + 1) lastDot;
                relPath0 = substring url 0 lastDot;
                selDot = lastIndexOf relPath0 CHR ''.'';
                name1 = (if selDot > lastSlash then substring url (lastSlash + 1) selDot
                         else name0);
                selector1 = (if selDot > lastSlash then substring_from relPath0 (selDot + 1)
                             else []);
                relPath1 = (if selDot > lastSlash then substring relPath0 0 selDot
                            else relPath0);
                strip = (mount \<noteq> [] \<and> mount \<noteq> ''/''
                         \<and> startsWith (relPath1 @ ''/'') (mount @ ''/''));
                relPath2 = (if strip then substring_from relPath1 (int (length mount))
                            else relPath1);
                pth = (if strip then substring_from url (int (length mount)) else url)
            in Inr \<lparr>path = pth, name = name1, selector = selector1, ext = ext0,
                    relPath = relPath2\<rparr>))"

definition getPathInfos ::
  "string \<Rightarrow> string \<Rightarrow> string \<Rightarrow> string list \<Rightarrow> js_error + path_info list" where
  "getPathInfos cwd urlPath mount indices =
     map_throw (path_info_of mount) (unique (urls cwd urlPath indices))"

section \<open>JavaScript values and objects\<close>

text \<open>
  The values that flow through the option objects: \<^verbatim>\<open>undefined\<close>, strings,
  booleans and the header object. An object is a finite map from property names
  to values, so that the spread \<^verbatim>\<open>{...a, ...b}\<close> is \<open>a ++ b\<close>; a property
  that holds \<^verbatim>\<open>undefined\<close> is still a property and overrides an earlier one.
\<close>

datatype jsval = Undefined | Str string | Bool bool | Obj "(string \<times> string) list"

type_synonym jsobject = "string \<rightharpoonup> jsval"

definition get :: "jsobject \<Rightarrow> string \<Rightarrow> jsval" where
  "get obj k = (case obj k of None \<Rightarrow> Undefined | Some v \<Rightarrow> v)"

fun truthy :: "jsval \<Rightarrow> bool" where
  "truthy Undefined = False"
| "truthy (Str s) = (s \<noteq> [])"
| "truthy (Bool b) = b"
| "truthy (Obj h) = True"

fun is_string :: "jsval \<Rightarrow> bool" where
  "is_string (Str s) = True"
| "is_string v = False"

text \<open>A value inside a template literal.\<close>

fun template :: "jsval \<Rightarrow> string" where
  "template Undefined = ''undefined''"
| "template (Str s) = s"
| "template (Bool b) = (if b then ''true'' else ''false'')"
| "template (Obj h) = ''[object Object]''"

text \<open>A number inside a template literal: its decimal digits.\<close>

fun digits :: "nat \<Rightarrow> string" where
  "digits n =
     (if n < 10 then [''0123456789'' ! n]
      else digits (n div 10) @ [''0123456789'' ! (n mod 10)])"

declare digits.simps [simp del]

definition template_int :: "int \<Rightarrow> string" where
  "template_int i = (if i < 0 then CHR ''-'' # digits (nat (- i)) else digits (nat i))"

definition of_opt :: "string option \<Rightarrow> jsval" where
  "of_opt x = (case x of None \<Rightarrow> Undefined | Some s \<Rightarrow> Str s)"

text \<open>\<^verbatim>\<open>x || d\<close> on an optional string: \<^verbatim>\<open>undefined\<close> and \<^verbatim>\<open>''\<close> are falsy.\<close>

definition or_default :: "string option \<Rightarrow> string \<Rightarrow> string" where
  "or_default x d = (case x of None \<Rightarrow> d | Some s \<Rightarrow> if s = [] then d else s)"

section \<open>Invocation descriptors and resolver policies\<close>

datatype resolver = DefaultResolver | ErrorPageResolver

text \<open>
  The object a task promises. \<open>idxOffset = None\<close> is an object without that
  property. \<open>action_name\<close> is the property \<^verbatim>\<open>name\<close>.
\<close>

record descriptor =
  resolve :: resolver
  action_name :: string
  blocking :: bool
  idxOffset :: "nat option"
  params :: jsobject

text \<open>
  A completed response carries the options of its invocation in
  \<^verbatim>\<open>actionOptions\<close>: the descriptor and the index \<^verbatim>\<open>idx\<close> of the invocation.
  \<open>statusCode = None\<close> is a response without a status code. Both records are
  extensible: whatever else a response holds is its \<open>more\<close> part.
\<close>

record action_options = descriptor +
  idx :: nat

record 'a response =
  statusCode :: "int option"
  actionOptions :: "'a action_options_scheme"

text \<open>
  The resolvers receive a reference to the response object, and
  \<^verbatim>\<open>errorPageResolver\<close> assigns to a field of it, so responses live in a store
  and are passed by address. \<open>None\<close> is a falsy argument (\<^verbatim>\<open>null\<close> or
  \<^verbatim>\<open>undefined\<close>). A rejected promise is \<open>Inl\<close>, a fulfilled one \<open>Inr\<close>.
\<close>

type_synonym addr = nat

definition HELIX_STATIC_ACTION :: string where
  "HELIX_STATIC_ACTION = ''helix-services/static@v1''"

definition defaultResolver ::
  "(addr \<Rightarrow> ('a, 'b) response_scheme) \<Rightarrow> addr option \<Rightarrow> js_error + addr option" where
  "defaultResolver h res =
     (case res of
        None \<Rightarrow> Inr res
      | Some a \<Rightarrow>
          (case statusCode (h a) of
             None \<Rightarrow> Inr res
           | Some c \<Rightarrow>
               if c \<ge> 400 then
                 (let ps = params (actionOptions (h a));
                      rp = template (get ps ''owner'') @ ''/'' @ template (get ps ''repo'')
                           @ ''/'' @ template (get ps ''ref'') @ template (get ps ''path'');
                      error = \<lparr>message =
                                 ''['' @ digits (idx (actionOptions (h a)))
                                 @ ''] Error invoking ''
                                 @ action_name (actionOptions (h a))
                                 @ ''('' @ rp @ ''): '' @ template_int c,
                               err_statusCode = Some (if c = 502 then 504 else c)\<rparr>
                  in Inl error)
               else Inr res))"

definition errorPageResolver ::
  "(addr \<Rightarrow> ('a, 'b) response_scheme) \<Rightarrow> addr option
     \<Rightarrow> (addr \<Rightarrow> ('a, 'b) response_scheme) \<times> (js_error + addr option)" where
  "errorPageResolver h res =
     (case res of
        None \<Rightarrow> (h, defaultResolver h res)
      | Some a \<Rightarrow>
          if statusCode (h a) = Some 200
          then (h(a := (h a)\<lparr>statusCode := Some 404\<rparr>), Inr res)
          else (h, defaultResolver h res))"

section \<open>Reference resolution\<close>

text \<open>
  The ref-resolution service is outside the program. It is a parameter: a function
  from the number of invocations made before and the parameters of this one to
  what the invocation does, which is to throw or to answer with a response. A
  falsy \<^verbatim>\<open>body\<close> is \<open>None\<close>, a body without \<^verbatim>\<open>sha\<close> has \<open>sha = None\<close>.
\<close>

record ref_body =
  sha :: "string option"

record ow_response =
  res_statusCode :: "int option"
  res_body :: "ref_body option"

datatype ow_outcome = Throws js_error | Returns ow_response

type_synonym ow_service = "nat \<Rightarrow> jsobject \<Rightarrow> ow_outcome"

text \<open>
  What a run leaves behind: the invocations of the service and the lines written to
  the logger, in order. \<open>Call_resolveRef\<close> is a ghost event that marks each entry
  into \<^verbatim>\<open>resolveRef\<close>, so that calls can be counted.

  The parameter \<^verbatim>\<open>log\<close> is \<open>Some Logger\<close> for a logger object, whose methods
  append a line to the trace, and \<open>None\<close> for \<^verbatim>\<open>undefined\<close>:
  \<^verbatim>\<open>fetchers\<close> passes \<^verbatim>\<open>params.__ow_logger\<close> on as it finds it. Calling a
  method of \<^verbatim>\<open>undefined\<close> throws a \<^verbatim>\<open>TypeError\<close>.
\<close>

datatype logger = Logger

datatype level = Info | Err

datatype log_line =
  Unable_to_resolve jsval "int option" "ref_body option"
| Unable_to_resolve_exception jsval js_error

datatype event =
  Call_resolveRef jsobject
| Invoke string jsobject
| Log level log_line


fun is_invoke :: "event \<Rightarrow> bool" where
  "is_invoke (Invoke n ps) = True"
| "is_invoke e = False"

definition invocations :: "event list \<Rightarrow> nat" where
  "invocations t = length (filter is_invoke t)"

text \<open>\<^verbatim>\<open>log[level](line)\<close>: the trace with the line, or the exception thrown.\<close>

definition log_write ::
  "logger option \<Rightarrow> level \<Rightarrow> log_line \<Rightarrow> event list \<Rightarrow> js_error + event list" where
  "log_write log lvl line t =
     (case log of
        None \<Rightarrow> Inl (Error ''Cannot read property of undefined'')
      | Some l \<Rightarrow> Inr (t @ [Log lvl line]))"

definition hex_char :: "char \<Rightarrow> bool" where
  "hex_char c = (c \<in> set ''0123456789abcdefABCDEF'')"

text \<open>\<^verbatim>\<open>/^[a-f0-9]{40}$/i\<close>\<close>

definition matches_sha :: "string \<Rightarrow> bool" where
  "matches_sha s = (length s = 40 \<and> list_all hex_char s)"

text \<open>\<^verbatim>\<open>res.body && res.body.sha\<close>, when truthy.\<close>

definition body_sha :: "ow_response \<Rightarrow> string option" where
  "body_sha res =
     (case res_body res of
        None \<Rightarrow> None
      | Some b \<Rightarrow> (case sha b of None \<Rightarrow> None | Some s \<Rightarrow> if s = [] then None else Some s))"

text \<open>
  The body of the \<^verbatim>\<open>try\<close> block: \<open>Inl e\<close> when \<open>e\<close> is thrown, \<open>Inr (Some r)\<close>
  when the block returns \<open>r\<close>, \<open>Inr None\<close> when control leaves it at its end.
\<close>

definition resolveRef_try ::
  "ow_service \<Rightarrow> event list \<Rightarrow> logger option \<Rightarrow> jsobject \<Rightarrow> jsobject
     \<Rightarrow> (js_error + jsobject option) \<times> event list" where
  "resolveRef_try ow t log opts wskOpts =
     (let ref = get opts ''ref'';
          request = opts ++ wskOpts;
          t1 = t @ [Invoke ''helix-services/resolve-git-ref@v1_link'' request]
      in case ow (invocations t) request of
           Throws e \<Rightarrow> (Inl e, t1)
         | Returns res \<Rightarrow>
             (case body_sha res of
                Some s \<Rightarrow> (Inr (Some [''ref'' \<mapsto> Str s, ''branch'' \<mapsto> ref]), t1)
              | None \<Rightarrow>
                  (let lvl = (case res_statusCode res of
                                None \<Rightarrow> Err
                              | Some c \<Rightarrow> if c = 0 \<or> c \<ge> 500 then Err else Info)
                   in case log_write log lvl
                             (Unable_to_resolve ref (res_statusCode res) (res_body res)) t1 of
                        Inl e \<Rightarrow> (Inl e, t1)
                      | Inr t2 \<Rightarrow> (Inr None, t2))))"

text \<open>
  \<^verbatim>\<open>resolveRef\<close> is \<^verbatim>\<open>async\<close>: its result is a promise, rejected (\<open>Inl\<close>) by
  an exception that leaves the function. \<^verbatim>\<open>ref.match\<close> is outside the
  \<^verbatim>\<open>try\<close> block and is not a function unless \<^verbatim>\<open>ref\<close> is a string; and
  \<^verbatim>\<open>log.error\<close> in the \<^verbatim>\<open>catch\<close> handler is outside it too.
\<close>

definition resolveRef ::
  "ow_service \<Rightarrow> event list \<Rightarrow> logger option \<Rightarrow> jsobject \<Rightarrow> jsobject
     \<Rightarrow> (js_error + jsobject) \<times> event list" where
  "resolveRef ow t0 log opts wskOpts =
     (let t = t0 @ [Call_resolveRef opts];
          ref = get opts ''ref''
      in if truthy ref \<and> \<not> is_string ref then
           (Inl (Error ''ref.match is not a function''), t)
         else if truthy ref \<and> matches_sha (template ref) then
           (Inr [''ref'' \<mapsto> ref], t)
         else
           (case resolveRef_try ow t log opts wskOpts of
              (Inl e, t') \<Rightarrow>
                (case log_write log Err (Unable_to_resolve_exception ref e) t' of
                   Inl e' \<Rightarrow> (Inl e', t')
                 | Inr t'' \<Rightarrow> (Inr [''ref'' \<mapsto> ref], t''))
            | (Inr (Some r), t') \<Rightarrow> (Inr r, t')
            | (Inr None, t') \<Rightarrow> (Inr [''ref'' \<mapsto> ref], t')))"

section \<open>Plan building\<close>

text \<open>\<^verbatim>\<open>promise.then(f)\<close> for a callback that returns a value, and for one that
  returns a promise.\<close>

definition then_value :: "js_error + 'a \<Rightarrow> ('a \<Rightarrow> 'b) \<Rightarrow> js_error + 'b" where
  "then_value p f = (case p of Inl e \<Rightarrow> Inl e | Inr v \<Rightarrow> Inr (f v))"

definition then_promise :: "js_error + 'a \<Rightarrow> ('a \<Rightarrow> js_error + 'b) \<Rightarrow> js_error + 'b" where
  "then_promise p f = (case p of Inl e \<Rightarrow> Inl e | Inr v \<Rightarrow> f v)"

definition updateOpts :: "jsobject \<Rightarrow> js_error + jsobject \<Rightarrow> js_error + jsobject" where
  "updateOpts opts resolverPromise = then_value resolverPromise (\<lambda>ref. opts ++ ref)"

definition equalRepository :: "jsobject \<Rightarrow> jsobject \<Rightarrow> bool" where
  "equalRepository o1 o2 =
     (get o1 ''owner'' = get o2 ''owner''
      \<and> get o1 ''repo'' = get o2 ''repo''
      \<and> get o1 ''ref'' = get o2 ''ref'')"

text \<open>
  The request parameters that \<^verbatim>\<open>fetchers\<close> reads. They are strings when present;
  \<^verbatim>\<open>__ow_headers\<close> is an object of strings and \<^verbatim>\<open>__ow_logger\<close> the
  logger. \<open>req_path\<close> and \<open>req_params\<close> are the properties \<^verbatim>\<open>path\<close> and
  \<^verbatim>\<open>params\<close>.
\<close>

record request =
  req_path :: "string option"
  rootPath :: "string option"
  content_index :: "string option"
  content_owner :: "string option"
  content_repo :: "string option"
  content_ref :: "string option"
  content_package :: "string option"
  content_root :: "string option"
  static_owner :: "string option"
  static_repo :: "string option"
  static_ref :: "string option"
  static_esi :: "string option"
  static_root :: "string option"
  req_params :: "string option"
  GITHUB_TOKEN :: "string option"
  ow_headers :: "(string \<times> string) list option"
  ow_method :: "string option"
  ow_logger :: "logger option"

definition extractGithubToken :: "request \<Rightarrow> jsval" where
  "extractGithubToken ps =
     (if truthy (of_opt (GITHUB_TOKEN ps)) then of_opt (GITHUB_TOKEN ps)
      else (case ow_headers ps of
              None \<Rightarrow> Undefined
            | Some h \<Rightarrow> of_opt (map_of h ''x-github-token'')))"

type_synonym task = "js_error + descriptor"

definition fetch404tasks ::
  "path_info list \<Rightarrow> jsobject \<Rightarrow> js_error + jsobject \<Rightarrow> js_error + jsobject \<Rightarrow> nat
     \<Rightarrow> js_error + task list" where
  "fetch404tasks infos wskOpts contentPromise staticPromise offset =
     (case infos of
        [] \<Rightarrow> Inl (Error ''Cannot read property ext of undefined'')
      | info0 # rest \<Rightarrow>
          if ext info0 = ''html'' then
            Inr [then_value contentPromise (\<lambda>contentOpts.
                   \<lparr>resolve = ErrorPageResolver, action_name = HELIX_STATIC_ACTION,
                    blocking = True, idxOffset = Some offset,
                    params = [''path'' \<mapsto> Str ''/404.html'', ''esi'' \<mapsto> Bool False,
                              ''plain'' \<mapsto> Bool True] ++ wskOpts ++ contentOpts\<rparr>),
                 then_promise staticPromise (\<lambda>staticOpts.
                   then_value contentPromise (\<lambda>contentOpts.
                     \<lparr>resolve = ErrorPageResolver, action_name = HELIX_STATIC_ACTION,
                      blocking = True, idxOffset = Some offset,
                      params = [''path'' \<mapsto> Str ''/404.html'', ''esi'' \<mapsto> Bool False,
                                ''plain'' \<mapsto> Bool True] ++ wskOpts ++ staticOpts\<rparr>))]
          else Inr [])"

definition fetchfallbacktasks ::
  "path_info list \<Rightarrow> jsobject \<Rightarrow> js_error + jsobject \<Rightarrow> js_error + jsobject \<Rightarrow> task list" where
  "fetchfallbacktasks infos wskOpts contentPromise staticPromise =
     map (\<lambda>info. then_promise staticPromise (\<lambda>staticOpts.
            then_value contentPromise (\<lambda>contentOpts.
              \<lparr>resolve = DefaultResolver, action_name = HELIX_STATIC_ACTION,
               blocking = True, idxOffset = None,
               params = [''path'' \<mapsto> Str (path info), ''esi'' \<mapsto> Bool False,
                         ''plain'' \<mapsto> Bool True] ++ wskOpts ++ staticOpts\<rparr>))) infos"

definition fetchactiontasks ::
  "path_info list \<Rightarrow> jsobject \<Rightarrow> js_error + jsobject \<Rightarrow> request \<Rightarrow> task list" where
  "fetchactiontasks infos wskOpts contentPromise ps =
     map (\<lambda>info. then_value contentPromise (\<lambda>contentOpts.
            (let actionname =
                   (if truthy (get contentOpts ''package'')
                    then template (get contentOpts ''package'') else ''default'')
                   @ ''/''
                   @ (if selector info \<noteq> [] then selector info @ ''_'' else [])
                   @ ext info
             in \<lparr>resolve = DefaultResolver, action_name = actionname,
                 blocking = True, idxOffset = None,
                 params = [''path'' \<mapsto> Str (relPath info @ ''.md''),
                           ''rootPath'' \<mapsto> Str (or_default (rootPath ps) [])]
                          ++ wskOpts ++ contentOpts\<rparr>))) infos"

definition fetchrawtasks ::
  "path_info list \<Rightarrow> request \<Rightarrow> js_error + jsobject \<Rightarrow> jsobject \<Rightarrow> task list" where
  "fetchrawtasks infos ps contentPromise wskOpts =
     map (\<lambda>info. then_value contentPromise (\<lambda>contentOpts.
            \<lparr>resolve = DefaultResolver, action_name = HELIX_STATIC_ACTION,
             blocking = True, idxOffset = None,
             params = [''path'' \<mapsto> Str (path info), ''esi'' \<mapsto> Bool False,
                       ''plain'' \<mapsto> Bool True, ''root'' \<mapsto> of_opt (content_root ps)]
                      ++ wskOpts ++ contentOpts\<rparr>)) infos"

definition make_staticOpts :: "request \<Rightarrow> jsobject" where
  "make_staticOpts ps =
     (let githubToken = extractGithubToken ps;
          staticOpts = [''owner'' \<mapsto> of_opt (static_owner ps),
                        ''repo'' \<mapsto> of_opt (static_repo ps),
                        ''ref'' \<mapsto> of_opt (static_ref ps),
                        ''esi'' \<mapsto> of_opt (static_esi ps),
                        ''root'' \<mapsto> of_opt (static_root ps)]
      in if truthy githubToken then staticOpts(''GITHUB_TOKEN'' \<mapsto> githubToken)
         else staticOpts)"

definition make_contentOpts :: "request \<Rightarrow> jsobject" where
  "make_contentOpts ps =
     (let githubToken = extractGithubToken ps;
          contentOpts = [''owner'' \<mapsto> of_opt (content_owner ps),
                         ''repo'' \<mapsto> of_opt (content_repo ps),
                         ''ref'' \<mapsto> of_opt (content_ref ps),
                         ''package'' \<mapsto> of_opt (content_package ps),
                         ''params'' \<mapsto> of_opt (req_params ps)]
      in if truthy githubToken then contentOpts(''GITHUB_TOKEN'' \<mapsto> githubToken)
         else contentOpts)"

definition make_wskOpts :: "request \<Rightarrow> jsobject" where
  "make_wskOpts ps =
     [''__ow_headers'' \<mapsto> (case ow_headers ps of None \<Rightarrow> Undefined | Some h \<Rightarrow> Obj h),
      ''__ow_method'' \<mapsto> of_opt (ow_method ps)]"

text \<open>
  The two resolver promises of \<^verbatim>\<open>fetchers\<close> and the trace of computing them.
  The second call of \<^verbatim>\<open>resolveRef\<close> is issued after the first has issued its
  invocation of the service.
\<close>

definition resolver_promises ::
  "ow_service \<Rightarrow> request
     \<Rightarrow> (js_error + jsobject) \<times> (js_error + jsobject) \<times> event list" where
  "resolver_promises ow ps =
     (let staticOpts = make_staticOpts ps;
          contentOpts = make_contentOpts ps;
          wskOpts = make_wskOpts ps
      in case resolveRef ow [] (ow_logger ps) staticOpts wskOpts of
           (staticResolver, t1) \<Rightarrow>
             if equalRepository staticOpts contentOpts then (staticResolver, staticResolver, t1)
             else (case resolveRef ow t1 (ow_logger ps) contentOpts wskOpts of
                     (contentResolver, t2) \<Rightarrow> (staticResolver, contentResolver, t2)))"

text \<open>
  The result of \<^verbatim>\<open>fetchers\<close>: the plan, or the exception thrown, together with the
  trace of the run up to that point.
\<close>

record plan =
  base :: "task list"
  fetch404 :: "task list"

definition fetchers ::
  "string \<Rightarrow> ow_service \<Rightarrow> request \<Rightarrow> (js_error + plan) \<times> event list" where
  "fetchers cwd ow ps =
     (let dirindex = split CHR '','' (or_default (content_index ps) ''index.html'')
      in case getPathInfos cwd (or_default (req_path ps) ''/'') (or_default (rootPath ps) [])
                dirindex of
           Inl e \<Rightarrow> (Inl e, [])
         | Inr infos \<Rightarrow>
         (case getPathInfos cwd (or_default (req_path ps) ''/'') (or_default (rootPath ps) [])
                 dirindex of
            Inl e \<Rightarrow> (Inl e, [])
          | Inr actioninfos \<Rightarrow>
          (let staticOpts = make_staticOpts ps;
               contentOpts = make_contentOpts ps;
               wskOpts = make_wskOpts ps
           in case resolver_promises ow ps of
                (staticResolver, contentResolver, t) \<Rightarrow>
                  (let staticPromise = updateOpts staticOpts staticResolver;
                       contentPromise = updateOpts contentOpts contentResolver;
                       baseTasks = fetchrawtasks infos ps contentPromise wskOpts
                                   @ fetchactiontasks actioninfos wskOpts contentPromise ps
                                   @ fetchfallbacktasks infos wskOpts contentPromise staticPromise
                   in case fetch404tasks infos wskOpts contentPromise staticPromise
                             (length baseTasks) of
                        Inl e \<Rightarrow> (Inl e, t)
                      | Inr tasks404 \<Rightarrow> (Inr \<lparr>base = baseTasks, fetch404 = tasks404\<rparr>, t)))))"

section \<open>Notions used in the statements\<close>

text \<open>
  A candidate URL has an extension when its last dot comes after its last slash.
  A plain name is one path segment that normalisation keeps: not empty, without a
  slash, and neither \<^verbatim>\<open>.\<close> nor \<^verbatim>\<open>..\<close>. An index name is a plain name with a
  dot. \<open>directory [s1, ..., sn]\<close> is the normalised absolute directory path
  \<^verbatim>\<open>/s1/.../sn/\<close>; \<open>directory []\<close> is \<^verbatim>\<open>/\<close>.
\<close>

definition has_extension :: "string \<Rightarrow> bool" where
  "has_extension url = (lastIndexOf url CHR ''/'' < lastIndexOf url CHR ''.'')"

definition plain_name :: "string \<Rightarrow> bool" where
  "plain_name s = (s \<noteq> [] \<and> CHR ''/'' \<notin> set s \<and> s \<noteq> ''.'' \<and> s \<noteq> ''..'')"

definition index_name :: "string \<Rightarrow> bool" where
  "index_name s = (plain_name s \<and> CHR ''.'' \<in> set s)"

definition directory :: "string list \<Rightarrow> string" where
  "directory segs = concat (map (\<lambda>s. CHR ''/'' # s) segs) @ ''/''"




section \<open>Sample inputs\<close>

text \<open>
  Six completed responses of the \<^verbatim>\<open>/404.html\<close> fetch, at the addresses \<open>0\<close> to
  \<open>5\<close> of a store, with the status codes 399, 400, 502, 500, 200 and 404.
\<close>

definition sample_response :: "int \<Rightarrow> unit response" where
  "sample_response c =
     \<lparr>statusCode = Some c,
      actionOptions =
        \<lparr>resolve = ErrorPageResolver, action_name = HELIX_STATIC_ACTION, blocking = True,
         idxOffset = Some 3,
         params = [''owner'' \<mapsto> Str ''o'', ''repo'' \<mapsto> Str ''r'', ''ref'' \<mapsto> Str ''main'',
                   ''path'' \<mapsto> Str ''/404.html''],
         idx = 4\<rparr>\<rparr>"

definition sample_store :: "addr \<Rightarrow> unit response" where
  "sample_store a =
     sample_response (if a = 0 then 399 else if a = 1 then 400 else if a = 2 then 502
                      else if a = 3 then 500 else if a = 4 then 200 else 404)"

text \<open>
  A commit identifier in mixed case, option objects with a given ref, and three
  behaviours of the ref-resolution service: it resolves, it answers 404 without a
  body, it throws.
\<close>

definition sample_sha :: string where
  "sample_sha = ''0123456789abcdefABCDEF0123456789abcdefAB''"


definition ow_resolving :: ow_service where
  "ow_resolving n ps =
     Returns \<lparr>res_statusCode = Some 200, res_body = Some \<lparr>sha = Some sample_sha\<rparr>\<rparr>"



text \<open>
  The request for \<^verbatim>\<open>/\<close> with the index \<^verbatim>\<open>index.html\<close> and the same
  coordinates for content and static; the same request with the index name
  \<^verbatim>\<open>index\<close>; the same request with another static repository.
\<close>

definition sample_request :: request where
  "sample_request =
     \<lparr>req_path = Some ''/'', rootPath = None, content_index = Some ''index.html'',
      content_owner = Some ''o'', content_repo = Some ''r'', content_ref = Some ''main'',
      content_package = None, content_root = None,
      static_owner = Some ''o'', static_repo = Some ''r'', static_ref = Some ''main'',
      static_esi = None, static_root = None, req_params = None, GITHUB_TOKEN = None,
      ow_headers = None, ow_method = Some ''get'', ow_logger = Some Logger\<rparr>"


definition two_repo_request :: request where
  "two_repo_request = sample_request\<lparr>static_repo := Some ''s''\<rparr>"




section \<open>Resolver policies\<close>

text \<open>
  C2. For a completed response with status code \<open>c\<close>, \<^verbatim>\<open>defaultResolver\<close>
  resolves with the response when \<open>c < 400\<close>. When \<open>c \<ge> 400\<close> it rejects with an
  error whose message is made of the invocation index, the target name and
  \<^verbatim>\<open>owner/repo/ref\<close> followed by the path, and whose status code is 504 when
  \<open>c\<close> is 502 and \<open>c\<close> otherwise.
\<close>

theorem defaultResolver_policy:
  fixes h :: "addr \<Rightarrow> ('a, 'b) response_scheme"
  assumes "statusCode (h a) = Some c"
  shows "(c < 400 \<longrightarrow> defaultResolver h (Some a) = Inr (Some a))
       \<and> (c \<ge> 400 \<longrightarrow>
            defaultResolver h (Some a) =
              Inl \<lparr>message =
                     ''['' @ digits (idx (actionOptions (h a))) @ ''] Error invoking ''
                     @ action_name (actionOptions (h a)) @ ''(''
                     @ template (get (params (actionOptions (h a))) ''owner'') @ ''/''
                     @ template (get (params (actionOptions (h a))) ''repo'') @ ''/''
                     @ template (get (params (actionOptions (h a))) ''ref'')
                     @ template (get (params (actionOptions (h a))) ''path'')
                     @ ''): '' @ template_int c,
                   err_statusCode = Some (if c = 502 then 504 else c)\<rparr>)"
  using assms by (simp add: defaultResolver_def Let_def)

theorem defaultResolver_policy_witness:
  "statusCode (sample_store 0) = Some 399
   \<and> defaultResolver sample_store (Some 0) = Inr (Some 0)
   \<and> statusCode (sample_store 1) = Some 400
   \<and> defaultResolver sample_store (Some 1) =
       Inl \<lparr>message = ''[4] Error invoking helix-services/static@v1(o/r/main/404.html): 400'',
            err_statusCode = Some 400\<rparr>
   \<and> statusCode (sample_store 2) = Some 502
   \<and> defaultResolver sample_store (Some 2) =
       Inl \<lparr>message = ''[4] Error invoking helix-services/static@v1(o/r/main/404.html): 502'',
            err_statusCode = Some 504\<rparr>
   \<and> statusCode (sample_store 3) = Some 500
   \<and> defaultResolver sample_store (Some 3) =
       Inl \<lparr>message = ''[4] Error invoking helix-services/static@v1(o/r/main/404.html): 500'',
            err_statusCode = Some 500\<rparr>"
  using defaultResolver_policy [of sample_store 0 399]
    defaultResolver_policy [of sample_store 1 400]
    defaultResolver_policy [of sample_store 2 502]
    defaultResolver_policy [of sample_store 3 500]
  by (simp add: sample_store_def sample_response_def get_def template_int_def digits.simps
      HELIX_STATIC_ACTION_def)

text \<open>
  C3. \<^verbatim>\<open>errorPageResolver\<close> resolves with the response, its status code now 404,
  when the status code is 200. In every other case the store is left as it is and
  the outcome is that of \<^verbatim>\<open>defaultResolver\<close>; so a response with status code 404
  or 500 is rejected with that status code on the error.
\<close>

theorem errorPageResolver_policy:
  fixes h :: "addr \<Rightarrow> ('a, 'b) response_scheme"
  shows "(statusCode (h a) = Some 200 \<longrightarrow>
            (\<exists>h'. errorPageResolver h (Some a) = (h', Inr (Some a))
                  \<and> statusCode (h' a) = Some 404))
       \<and> (statusCode (h a) \<noteq> Some 200 \<longrightarrow>
            errorPageResolver h (Some a) = (h, defaultResolver h (Some a)))
       \<and> (\<forall>c. statusCode (h a) = Some c \<and> (c = 404 \<or> c = 500) \<longrightarrow>
            (\<exists>e. errorPageResolver h (Some a) = (h, Inl e) \<and> err_statusCode e = Some c))"
  by (auto simp add: errorPageResolver_def defaultResolver_def Let_def)

theorem errorPageResolver_policy_witness:
  "statusCode (sample_store 4) = Some 200
   \<and> snd (errorPageResolver sample_store (Some 4)) = Inr (Some 4)
   \<and> statusCode (fst (errorPageResolver sample_store (Some 4)) 4) = Some 404
   \<and> statusCode (sample_store 5) = Some 404
   \<and> errorPageResolver sample_store (Some 5) =
       (sample_store,
        Inl \<lparr>message = ''[4] Error invoking helix-services/static@v1(o/r/main/404.html): 404'',
             err_statusCode = Some 404\<rparr>)
   \<and> statusCode (sample_store 3) = Some 500
   \<and> (\<exists>e. errorPageResolver sample_store (Some 3) = (sample_store, Inl e)
          \<and> err_statusCode e = Some 500)"
  using errorPageResolver_policy [of sample_store 4] errorPageResolver_policy [of sample_store 5]
    errorPageResolver_policy [of sample_store 3]
  by (auto simp add: sample_store_def sample_response_def defaultResolver_def Let_def get_def
      template_int_def digits.simps HELIX_STATIC_ACTION_def)

text \<open>
  C10. On a response with status code 200, \<^verbatim>\<open>errorPageResolver\<close> writes 404 into
  the status code of the object at the address it was given and resolves with that
  same address: in the store it leaves, this object differs from the old one in
  its status code only, and no other object has changed. Whoever holds the address
  reads 404.
\<close>

theorem errorPageResolver_mutates_in_place:
  fixes h :: "addr \<Rightarrow> ('a, 'b) response_scheme"
  assumes "statusCode (h a) = Some 200"
  shows "\<exists>h'. errorPageResolver h (Some a) = (h', Inr (Some a))
           \<and> h' a = (h a)\<lparr>statusCode := Some 404\<rparr>
           \<and> statusCode (h' a) = Some 404
           \<and> actionOptions (h' a) = actionOptions (h a)
           \<and> response.more (h' a) = response.more (h a)
           \<and> (\<forall>b. b \<noteq> a \<longrightarrow> h' b = h b)"
  using assms by (simp add: errorPageResolver_def)

theorem errorPageResolver_mutates_in_place_witness:
  "statusCode (sample_store 4) = Some 200
   \<and> snd (errorPageResolver sample_store (Some 4)) = Inr (Some 4)
   \<and> fst (errorPageResolver sample_store (Some 4)) 4 = sample_response 404
   \<and> fst (errorPageResolver sample_store (Some 4)) 5 = sample_store 5"
proof -
  have h: "statusCode (sample_store 4) = Some 200"
    by (simp add: sample_store_def sample_response_def)
  from errorPageResolver_mutates_in_place [of sample_store 4, OF h]
  obtain h' where "errorPageResolver sample_store (Some 4) = (h', Inr (Some 4))"
    and "h' 4 = (sample_store 4)\<lparr>statusCode := Some 404\<rparr>"
    and "\<forall>b. b \<noteq> 4 \<longrightarrow> h' b = sample_store b"
    by blast
  then show ?thesis
    using h by (simp add: sample_store_def sample_response_def)
qed

section \<open>Path resolution\<close>

text \<open>
  C6. The claim is that \<^verbatim>\<open>getPathInfos\<close> answers on a path as it does on the path
  with every run of slashes collapsed. The code replaces the first run only: on
  \<^verbatim>\<open>/a//b.html\<close> the first run is the leading slash, the double slash stays, and
  the descriptor differs from the one of \<^verbatim>\<open>/a/b.html\<close>.
\<close>

theorem getPathInfos_collapses_first_run_only:
  "getPathInfos ''/'' ''/a//b.html'' [] [''index.html'']
     = Inr [\<lparr>path = ''/a//b.html'', name = ''b'', selector = [], ext = ''html'',
              relPath = ''/a//b''\<rparr>]
   \<and> collapse_all_separators ''/a//b.html'' = ''/a/b.html''
   \<and> getPathInfos ''/'' (collapse_all_separators ''/a//b.html'') [] [''index.html'']
     = Inr [\<lparr>path = ''/a/b.html'', name = ''b'', selector = [], ext = ''html'',
              relPath = ''/a/b''\<rparr>]"
  by code_simp

section \<open>Auxiliary facts\<close>

lemma split_not_Nil: "split c s \<noteq> []"
  by (induction s) (auto split: list.splits)

lemma set_unique_fold:
  "set (foldl (\<lambda>retval item. if item \<in> set retval then retval else retval @ [item]) acc xs)
     = set acc \<union> set xs"
  by (induction xs arbitrary: acc) auto

lemma set_unique: "set (unique xs) = set xs"
  by (simp add: unique_def set_unique_fold)

lemma map_throw_Inr:
  "map_throw f xs = Inr ys \<Longrightarrow> length ys = length xs \<and> (\<forall>i<length xs. f (xs ! i) = Inr (ys ! i))"
proof (induction xs arbitrary: ys)
  case Nil
  then show ?case by simp
next
  case (Cons x xs)
  then show ?case
    by (auto split: sum.splits simp add: nth_Cons split: nat.splits)
qed

lemma urls_not_Nil: "indices \<noteq> [] \<Longrightarrow> urls cwd urlPath indices \<noteq> []"
  by (simp add: urls_def Let_def)

lemma getPathInfos_not_Nil:
  assumes "getPathInfos cwd urlPath mount indices = Inr infos" and "indices \<noteq> []"
  shows "infos \<noteq> []"
proof -
  from assms(2) have "set (unique (urls cwd urlPath indices)) \<noteq> {}"
    by (simp add: set_unique urls_not_Nil)
  then have "unique (urls cwd urlPath indices) \<noteq> []" by auto
  moreover from assms(1) have "length infos = length (unique (urls cwd urlPath indices))"
    by (simp add: getPathInfos_def map_throw_Inr)
  ultimately show ?thesis by auto
qed

section \<open>Candidate URLs and their extensions\<close>

lemma lastIndexOf_bounds: "-1 \<le> lastIndexOf s c \<and> lastIndexOf s c < int (length s)"
  by (induction s) (auto simp add: Let_def)

lemma lastIndexOf_notin: "c \<notin> set s \<Longrightarrow> lastIndexOf s c = -1"
  by (induction s) (auto simp add: Let_def)

lemma lastIndexOf_in: "c \<in> set s \<Longrightarrow> 0 \<le> lastIndexOf s c"
  by (induction s) (auto simp add: Let_def)

lemma lastIndexOf_append:
  "lastIndexOf (xs @ ys) c =
     (if c \<in> set ys then int (length xs) + lastIndexOf ys c else lastIndexOf xs c)"
proof (induction xs)
  case Nil
  then show ?case by (simp add: lastIndexOf_notin)
next
  case (Cons x xs)
  then show ?case
    using lastIndexOf_in [of c ys] lastIndexOf_bounds [of ys c]
    by (auto simp add: Let_def)
qed

lemma has_extension_suffix:
  assumes "CHR ''/'' \<notin> set s" and "CHR ''.'' \<in> set s"
  shows "has_extension (x @ s)"
  using assms lastIndexOf_bounds [of x "CHR ''/''"] lastIndexOf_in [of "CHR ''.''" s]
  by (simp add: has_extension_def lastIndexOf_append)

lemma has_extension_html: "has_extension (r @ ''.html'')"
  by (rule has_extension_suffix) simp_all

lemma split_no_sep: "c \<notin> set s \<Longrightarrow> split c s = [s]"
  by (induction s) auto

lemma split_append_sep: "split c (a @ c # b) = split c a @ split c b"
  by (induction a) (auto split: list.splits simp add: split_not_Nil)

lemma normalize_segments_append:
  "normalize_segments b (xs @ ys) acc
     = normalize_segments b ys (rev (normalize_segments b xs acc))"
  by (induction xs arbitrary: acc) auto

lemma join_snoc: "join (m @ [s]) = (if m = [] then s else join m @ CHR ''/'' # s)"
  by (induction m rule: join.induct) auto

lemma resolve_loop_shape:
  "\<exists>p. fst (resolve_loop ps acc) = p @ acc \<and> (p = [] \<or> last p = CHR ''/'')"
proof (induction ps arbitrary: acc)
  case Nil
  then show ?case by simp
next
  case (Cons q ps)
  show ?case
  proof (cases "q = []")
    case True
    with Cons show ?thesis by simp
  next
    case False
    show ?thesis
    proof (cases "hd q = CHR ''/''")
      case True
      with False have "fst (resolve_loop (q # ps) acc) = (q @ ''/'') @ acc" by simp
      then show ?thesis by (metis last_snoc)
    next
      case h: False
      from Cons [of "q @ CHR ''/'' # acc"] obtain p where
        p: "fst (resolve_loop ps (q @ CHR ''/'' # acc)) = p @ q @ CHR ''/'' # acc" by blast
      with False h have "fst (resolve_loop (q # ps) acc) = (p @ q @ ''/'') @ acc" by simp
      then show ?thesis by (metis append_assoc last_snoc)
    qed
  qed
qed

lemma normalizeString_index:
  assumes "plain_name ix" and "p = [] \<or> last p = CHR ''/''"
  shows "\<exists>x. normalizeString (p @ ix @ ''/'') b = x @ ix"
proof -
  from assms(1) have ns: "CHR ''/'' \<notin> set ix" by (simp add: plain_name_def)
  have tail: "split CHR ''/'' (ix @ ''/'') = [ix, []]"
    using split_append_sep [of "CHR ''/''" ix "[]"] ns by (simp add: split_no_sep)
  have "\<exists>S. split CHR ''/'' (p @ ix @ ''/'') = S @ [ix, []]"
  proof (cases "p = []")
    case True
    with tail show ?thesis by simp
  next
    case False
    with assms(2) obtain q where "p = q @ ''/''" by (metis append_butlast_last_id)
    then have "split CHR ''/'' (p @ ix @ ''/'') = split CHR ''/'' q @ [ix, []]"
      using split_append_sep [of "CHR ''/''" q "ix @ ''/''"] tail by simp
    then show ?thesis by blast
  qed
  then obtain S where S: "split CHR ''/'' (p @ ix @ ''/'') = S @ [ix, []]" by blast
  have "normalize_segments b (S @ [ix, []]) [] = normalize_segments b S [] @ [ix]"
    using assms(1) by (simp add: normalize_segments_append plain_name_def)
  then show ?thesis
    by (simp add: normalizeString_def S join_snoc)
qed

lemma path_resolve_index:
  assumes "plain_name ix"
  shows "\<exists>x. path_resolve cwd [d, ix] = x @ ix"
proof -
  from assms have i: "ix \<noteq> []" "hd ix \<noteq> CHR ''/''"
    by (auto simp add: plain_name_def) (metis list.set_sel(1))
  obtain p where p: "fst (resolve_loop [d, cwd] (ix @ ''/'')) = p @ ix @ ''/''"
    and l: "p = [] \<or> last p = CHR ''/''"
    using resolve_loop_shape [of "[d, cwd]" "ix @ ''/''"] by auto
  obtain r a where ra: "resolve_loop [d, cwd] (ix @ ''/'') = (r, a)"
    by (cases "resolve_loop [d, cwd] (ix @ ''/'')")
  with p have r: "r = p @ ix @ ''/''" by simp
  obtain x where x: "normalizeString (p @ ix @ ''/'') (\<not> a) = x @ ix"
    using normalizeString_index [OF assms l] by blast
  have e: "resolve_loop [ix, d, cwd] [] = resolve_loop [d, cwd] (ix @ ''/'')"
    using i by simp
  have "path_resolve cwd [d, ix] = (if a then CHR ''/'' # x @ ix else x @ ix)"
  proof (cases a)
    case True
    with x r show ?thesis
      by (simp add: path_resolve_def e ra Let_def del: resolve_loop.simps)
  next
    case False
    with x r i show ?thesis
      by (simp add: path_resolve_def e ra Let_def del: resolve_loop.simps)
  qed
  then show ?thesis by (metis append_Cons)
qed

lemma replace_slashes_Nil: "replace_slashes p = [] \<longleftrightarrow> p = []"
  by (cases p) auto

lemma last_dropWhile: "dropWhile P xs \<noteq> [] \<Longrightarrow> last (dropWhile P xs) = last xs"
  by (induction xs) (auto split: if_splits)

lemma dropWhile_Nil_last: "dropWhile (\<lambda>x. x = c) xs = [] \<Longrightarrow> xs \<noteq> [] \<Longrightarrow> last xs = c"
  by (induction xs) (auto split: if_splits)

lemma replace_slashes_last: "p \<noteq> [] \<Longrightarrow> last (replace_slashes p) = last p"
proof (induction p)
  case Nil
  then show ?case by simp
next
  case (Cons c cs)
  show ?case
  proof (cases "c = CHR ''/''")
    case True
    show ?thesis
    proof (cases "dropWhile (\<lambda>x. x = CHR ''/'') cs = []")
      case d: True
      show ?thesis
      proof (cases "cs = []")
        case True
        with \<open>c = CHR ''/''\<close> show ?thesis by simp
      next
        case False
        with d have l: "last cs = CHR ''/''" by (rule dropWhile_Nil_last)
        have "replace_slashes (c # cs) = ''/''"
          using d \<open>c = CHR ''/''\<close> by simp
        moreover have "last (c # cs) = CHR ''/''"
          using False l by simp
        ultimately show ?thesis by simp
      qed
    next
      case d: False
      then have l: "last (dropWhile (\<lambda>x. x = CHR ''/'') cs) = last cs"
        by (rule last_dropWhile)
      from d have n: "cs \<noteq> []" by auto
      have "replace_slashes (c # cs) = CHR ''/'' # dropWhile (\<lambda>x. x = CHR ''/'') cs"
        using \<open>c = CHR ''/''\<close> by simp
      moreover from d
      have "last (CHR ''/'' # dropWhile (\<lambda>x. x = CHR ''/'') cs)
              = last (dropWhile (\<lambda>x. x = CHR ''/'') cs)"
        by (rule last_ConsR)
      moreover from n have "last (c # cs) = last cs" by (rule last_ConsR)
      ultimately show ?thesis using l by (simp only:)
    qed
  next
    case False
    show ?thesis
    proof (cases "cs = []")
      case True
      with False show ?thesis by simp
    next
      case n: False
      with Cons have "last (replace_slashes cs) = last cs" by simp
      with n False show ?thesis by (simp add: replace_slashes_Nil)
    qed
  qed
qed

lemma endsWith_slash: "endsWith s ''/'' \<longleftrightarrow> s \<noteq> [] \<and> last s = CHR ''/''"
proof (cases "s = []")
  case True
  then show ?thesis by (simp add: endsWith_def)
next
  case False
  then obtain b l where "s = b @ [l]" by (metis append_butlast_last_id)
  then show ?thesis by (auto simp add: endsWith_def)
qed

lemma endsWith_replace_slashes:
  "endsWith (replace_slashes p) ''/'' \<longleftrightarrow> endsWith p ''/''"
  by (cases "p = []") (simp_all add: endsWith_slash replace_slashes_Nil replace_slashes_last)

lemma urls_has_extension:
  assumes "(urlPath \<noteq> [] \<and> \<not> endsWith urlPath ''/'') \<or> list_all index_name indices"
    and "u \<in> set (urls cwd urlPath indices)"
  shows "has_extension u"
proof (cases "lastIndexOf (replace_slashes urlPath) CHR ''.''
                \<le> lastIndexOf (replace_slashes urlPath) CHR ''/''")
  case False
  with assms(2) show ?thesis by (simp add: urls_def Let_def has_extension_def)
next
  case le: True
  show ?thesis
  proof (cases "urlPath = [] \<or> endsWith urlPath ''/''")
    case False
    with le assms(2) show ?thesis
      by (simp add: urls_def Let_def endsWith_replace_slashes replace_slashes_Nil
          has_extension_html)
  next
    case True
    with assms(1) have all: "list_all index_name indices" by blast
    from True le assms(2) obtain ix where ix: "ix \<in> set indices"
      and u: "u = path_resolve cwd [if replace_slashes urlPath = [] then ''/''
                                     else replace_slashes urlPath, ix]"
      by (auto simp add: urls_def Let_def endsWith_replace_slashes replace_slashes_Nil)
    from all ix have n: "index_name ix" by (simp add: list_all_iff)
    then obtain x where "u = x @ ix"
      using path_resolve_index [of ix cwd] u by (auto simp add: index_name_def)
    with n show ?thesis
      by (simp add: has_extension_suffix index_name_def plain_name_def)
  qed
qed

lemma path_info_of_Inl:
  "path_info_of mount url =
     (if has_extension url then Inr (projr (path_info_of mount url))
      else Inl (Error ''directory index must have an extension.''))"
  by (simp add: path_info_of_def has_extension_def Let_def)

lemma map_throw_Inl:
  assumes "x \<in> set xs" and "f x = Inl e" and "\<forall>y\<in>set xs. \<forall>e'. f y = Inl e' \<longrightarrow> e' = e"
  shows "map_throw f xs = Inl e"
  using assms
proof (induction xs)
  case Nil
  then show ?case by simp
next
  case (Cons a xs)
  show ?case
  proof (cases "f a")
    case (Inl e')
    with Cons.prems(3) have "e' = e" by simp
    with Inl show ?thesis by simp
  next
    case (Inr y)
    with Cons.prems(1,2) have "x \<in> set xs" by auto
    moreover note Cons.prems(2)
    moreover from Cons.prems(3) have "\<forall>y\<in>set xs. \<forall>e'. f y = Inl e' \<longrightarrow> e' = e" by simp
    ultimately have "map_throw f xs = Inl e" by (rule Cons.IH)
    with Inr show ?thesis by simp
  qed
qed

lemma getPathInfos_throws:
  assumes "u \<in> set (urls cwd urlPath indices)" and "\<not> has_extension u"
  shows "getPathInfos cwd urlPath mount indices
           = Inl (Error ''directory index must have an extension.'')"
proof -
  from assms(1) have "u \<in> set (unique (urls cwd urlPath indices))" by (simp add: set_unique)
  moreover from assms(2) have "path_info_of mount u = Inl (Error ''directory index must have an extension.'')"
    by (subst path_info_of_Inl) simp
  moreover have "\<forall>y\<in>set (unique (urls cwd urlPath indices)). \<forall>e'. path_info_of mount y = Inl e' \<longrightarrow>
      e' = Error ''directory index must have an extension.''"
  proof (intro ballI allI impI)
    fix y e'
    assume "path_info_of mount y = Inl e'"
    then show "e' = Error ''directory index must have an extension.''"
      by (subst (asm) path_info_of_Inl) (simp split: if_splits)
  qed
  ultimately show ?thesis
    unfolding getPathInfos_def by (rule map_throw_Inl)
qed

text \<open>
  C9, as the code has it. The claim is that no candidate URL lacks an extension, so
  that the throwing branch cannot be reached. For the path \<^verbatim>\<open>/\<close> and the index
  name \<^verbatim>\<open>index\<close> the candidate is \<^verbatim>\<open>/index\<close>, without a dot, and
  \<^verbatim>\<open>getPathInfos\<close> throws.
\<close>

theorem extensionless_candidate_reachable:
  "urls ''/'' ''/'' [''index''] = [''/index'']
   \<and> \<not> has_extension ''/index''
   \<and> getPathInfos ''/'' ''/'' [] [''index'']
       = Inl (Error ''directory index must have an extension.'')"
  by code_simp

text \<open>
  C9, amended. Every candidate URL has its last dot after its last slash when the
  path is not empty and does not end in a slash (the candidate is the path itself
  or ends in \<^verbatim>\<open>.html\<close>), or when every index name is a plain file name with a
  dot. And whenever a candidate without an extension is produced,
  \<^verbatim>\<open>getPathInfos\<close> throws \<^verbatim>\<open>directory index must have an extension.\<close> and
  returns nothing.
\<close>

theorem candidates_have_extension:
  "((urlPath \<noteq> [] \<and> \<not> endsWith urlPath ''/'') \<or> list_all index_name indices \<longrightarrow>
      (\<forall>u\<in>set (urls cwd urlPath indices). has_extension u))
   \<and> ((\<exists>u\<in>set (urls cwd urlPath indices). \<not> has_extension u) \<longrightarrow>
        getPathInfos cwd urlPath mount indices
          = Inl (Error ''directory index must have an extension.''))"
proof (intro conjI impI ballI)
  fix u
  assume "(urlPath \<noteq> [] \<and> \<not> endsWith urlPath ''/'') \<or> list_all index_name indices"
    and "u \<in> set (urls cwd urlPath indices)"
  then show "has_extension u" by (rule urls_has_extension)
next
  assume "\<exists>u\<in>set (urls cwd urlPath indices). \<not> has_extension u"
  then obtain u where "u \<in> set (urls cwd urlPath indices)" and "\<not> has_extension u"
    by (elim bexE)
  then show "getPathInfos cwd urlPath mount indices
               = Inl (Error ''directory index must have an extension.'')"
    by (rule getPathInfos_throws)
qed

theorem candidates_have_extension_witness:
  "list_all index_name [''index.html'', ''README.md'']
   \<and> urls ''/'' ''/docs/'' [''index.html'', ''README.md'']
       = [''/docs/index.html'', ''/docs/README.md'']
   \<and> has_extension ''/docs/index.html'' \<and> has_extension ''/docs/README.md''
   \<and> urls ''/'' ''/docs/'' [''index''] = [''/docs/index'']
   \<and> \<not> has_extension ''/docs/index''
   \<and> getPathInfos ''/'' ''/docs/'' [] [''index'']
       = Inl (Error ''directory index must have an extension.'')"
proof -
  have a: "index_name ''index.html''" "index_name ''README.md''"
    by (simp_all add: index_name_def plain_name_def)
  have u1: "urls ''/'' ''/docs/'' [''index.html'', ''README.md'']
       = [''/docs/index.html'', ''/docs/README.md'']" by code_simp
  have u2: "urls ''/'' ''/docs/'' [''index''] = [''/docs/index'']" by code_simp
  have n: "\<not> has_extension ''/docs/index''" by code_simp
  have h: "has_extension ''/docs/index.html'' \<and> has_extension ''/docs/README.md''"
    using candidates_have_extension [of "''/docs/''" "[''index.html'', ''README.md'']" "''/''" "[]"]
    unfolding u1 using a by simp
  have g: "getPathInfos ''/'' ''/docs/'' [] [''index'']
             = Inl (Error ''directory index must have an extension.'')"
    using candidates_have_extension [of "''/docs/''" "[''index'']" "''/''" "[]"]
    unfolding u2 using n by simp
  from a h g u1 u2 n show ?thesis by simp
qed

section \<open>Reference resolution: the promise of \<^verbatim>\<open>resolveRef\<close>\<close>

lemma resolveRef_fulfils:
  assumes "\<not> truthy (get opts ''ref'') \<or> is_string (get opts ''ref'')"
  shows "\<exists>r t'. resolveRef ow t (Some l) opts wskOpts = (Inr r, t')"
  using assms
  by (cases "get opts ''ref''")
     (auto simp add: resolveRef_def resolveRef_try_def log_write_def Let_def
        split: ow_outcome.splits option.splits)




lemma static_ref_typed:
  "\<not> truthy (get (make_staticOpts ps) ''ref'') \<or> is_string (get (make_staticOpts ps) ''ref'')"
  by (simp add: make_staticOpts_def get_def Let_def of_opt_def split: option.splits)

lemma content_ref_typed:
  "\<not> truthy (get (make_contentOpts ps) ''ref'') \<or> is_string (get (make_contentOpts ps) ''ref'')"
  by (simp add: make_contentOpts_def get_def Let_def of_opt_def split: option.splits)

lemma resolver_promises_fulfil:
  assumes "ow_logger ps = Some l"
  shows "\<exists>sr cr t. resolver_promises ow ps = (Inr sr, Inr cr, t)"
proof -
  obtain sr t1 where
    s: "resolveRef ow [] (Some l) (make_staticOpts ps) (make_wskOpts ps) = (Inr sr, t1)"
    using resolveRef_fulfils [OF static_ref_typed] by blast
  obtain cr t2 where
    c: "resolveRef ow t1 (Some l) (make_contentOpts ps) (make_wskOpts ps) = (Inr cr, t2)"
    using resolveRef_fulfils [OF content_ref_typed] by blast
  show ?thesis
    by (simp add: resolver_promises_def Let_def assms s c)
qed




section \<open>Plan building: the tasks and their order\<close>

lemma length_tasks:
  "length (fetchrawtasks infos ps cp wsk) = length infos"
  "length (fetchactiontasks infos wsk cp ps) = length infos"
  "length (fetchfallbacktasks infos wsk cp sp) = length infos"
  by (simp_all add: fetchrawtasks_def fetchactiontasks_def fetchfallbacktasks_def)

lemma fetch404tasks_Inr:
  assumes "infos \<noteq> []"
  shows "fetch404tasks infos wsk cp sp n =
           Inr (if ext (hd infos) = ''html'' then
                  [then_value cp (\<lambda>c.
                     \<lparr>resolve = ErrorPageResolver, action_name = HELIX_STATIC_ACTION,
                      blocking = True, idxOffset = Some n,
                      params = [''path'' \<mapsto> Str ''/404.html'', ''esi'' \<mapsto> Bool False,
                                ''plain'' \<mapsto> Bool True] ++ wsk ++ c\<rparr>),
                   then_promise sp (\<lambda>s. then_value cp (\<lambda>c.
                     \<lparr>resolve = ErrorPageResolver, action_name = HELIX_STATIC_ACTION,
                      blocking = True, idxOffset = Some n,
                      params = [''path'' \<mapsto> Str ''/404.html'', ''esi'' \<mapsto> Bool False,
                                ''plain'' \<mapsto> Bool True] ++ wsk ++ s\<rparr>))]
                else [])"
  using assms by (cases infos) (simp_all add: fetch404tasks_def)

lemma fetchers_unfold:
  assumes gp: "getPathInfos cwd (or_default (req_path ps) ''/'') (or_default (rootPath ps) [])
                 (split CHR '','' (or_default (content_index ps) ''index.html'')) = Inr infos"
    and rp: "resolver_promises ow ps = (sr, cr, t)"
  shows "fetchers cwd ow ps =
           (Inr \<lparr>base = fetchrawtasks infos ps (updateOpts (make_contentOpts ps) cr)
                          (make_wskOpts ps)
                        @ fetchactiontasks infos (make_wskOpts ps)
                            (updateOpts (make_contentOpts ps) cr) ps
                        @ fetchfallbacktasks infos (make_wskOpts ps)
                            (updateOpts (make_contentOpts ps) cr)
                            (updateOpts (make_staticOpts ps) sr),
                 fetch404 =
                   (case fetch404tasks infos (make_wskOpts ps)
                           (updateOpts (make_contentOpts ps) cr)
                           (updateOpts (make_staticOpts ps) sr)
                           (length infos + (length infos + length infos)) of
                      Inr ts \<Rightarrow> ts | Inl e \<Rightarrow> [])\<rparr>, t)"
proof -
  from gp have "infos \<noteq> []"
    by (rule getPathInfos_not_Nil) (rule split_not_Nil)
  then show ?thesis
    by (simp add: fetchers_def gp rp Let_def fetch404tasks_Inr length_tasks)
qed


lemma fetchers_Inr_getPathInfos:
  assumes "fetchers cwd ow ps = (Inr pl, t)"
  shows "\<exists>infos. getPathInfos cwd (or_default (req_path ps) ''/'') (or_default (rootPath ps) [])
                 (split CHR '','' (or_default (content_index ps) ''index.html'')) = Inr infos"
  using assms by (auto simp add: fetchers_def Let_def split: sum.splits)











lemma getPathInfos_root:
  "getPathInfos ''/'' ''/'' [] [''index.html'']
     = Inr [\<lparr>path = ''/index.html'', name = ''index'', selector = [], ext = ''html'',
              relPath = ''/index''\<rparr>]"
  by code_simp









section \<open>Plan building: the resolution calls\<close>




lemma fetchers_plan:
  assumes f: "fetchers cwd ow ps = (Inr pl, t)"
  shows "\<exists>infos sr cr. resolver_promises ow ps = (sr, cr, t) \<and> infos \<noteq> []
     \<and> pl = \<lparr>base = fetchrawtasks infos ps (updateOpts (make_contentOpts ps) cr)
                          (make_wskOpts ps)
                        @ fetchactiontasks infos (make_wskOpts ps)
                            (updateOpts (make_contentOpts ps) cr) ps
                        @ fetchfallbacktasks infos (make_wskOpts ps)
                            (updateOpts (make_contentOpts ps) cr)
                            (updateOpts (make_staticOpts ps) sr),
                 fetch404 =
                   (case fetch404tasks infos (make_wskOpts ps)
                           (updateOpts (make_contentOpts ps) cr)
                           (updateOpts (make_staticOpts ps) sr)
                           (length infos + (length infos + length infos)) of
                      Inr ts \<Rightarrow> ts | Inl e \<Rightarrow> [])\<rparr>"
proof -
  obtain infos where gp: "getPathInfos cwd (or_default (req_path ps) ''/'')
      (or_default (rootPath ps) [])
      (split CHR '','' (or_default (content_index ps) ''index.html'')) = Inr infos"
    using fetchers_Inr_getPathInfos [OF f] by blast
  obtain sr cr t' where rp: "resolver_promises ow ps = (sr, cr, t')"
    by (cases "resolver_promises ow ps") auto
  from gp have ne: "infos \<noteq> []"
    by (rule getPathInfos_not_Nil) (rule split_not_Nil)
  from fetchers_unfold [OF gp rp] f rp ne show ?thesis by auto
qed








section \<open>Plan building: the offset of the 404 segment\<close>

text \<open>
  C8, as the code has it. The claim is that every descriptor of both segments has
  an \<^verbatim>\<open>idxOffset\<close>. The three base descriptors of the sample request have none;
  the two of the 404 segment have the offset 3.
\<close>

theorem base_descriptors_without_idxOffset:
  "map_sum (\<lambda>e. ()) (\<lambda>pl. map (map_sum (\<lambda>e. ()) idxOffset) (base pl @ fetch404 pl))
     (fst (fetchers ''/'' ow_resolving sample_request))
   = Inr [Inr None, Inr None, Inr None, Inr (Some 3), Inr (Some 3)]"
  by code_simp

text \<open>
  C8, amended. In a plan that \<^verbatim>\<open>fetchers\<close> returns, every descriptor of the 404
  segment records an \<^verbatim>\<open>idxOffset\<close>, the length of the base list; the descriptors
  of the base list have no such property.
\<close>

theorem fetchers_idxOffset:
  assumes "fetchers cwd ow ps = (Inr pl, t)"
  shows "(\<forall>d. Inr d \<in> set (base pl) \<longrightarrow> idxOffset d = None)
       \<and> (\<forall>d. Inr d \<in> set (fetch404 pl) \<longrightarrow> idxOffset d = Some (length (base pl)))"
proof -
  from fetchers_plan [OF assms] obtain infos sr cr
    where ne: "infos \<noteq> []"
      and pl: "pl = \<lparr>base = fetchrawtasks infos ps (updateOpts (make_contentOpts ps) cr)
                          (make_wskOpts ps)
                        @ fetchactiontasks infos (make_wskOpts ps)
                            (updateOpts (make_contentOpts ps) cr) ps
                        @ fetchfallbacktasks infos (make_wskOpts ps)
                            (updateOpts (make_contentOpts ps) cr)
                            (updateOpts (make_staticOpts ps) sr),
                 fetch404 =
                   (case fetch404tasks infos (make_wskOpts ps)
                           (updateOpts (make_contentOpts ps) cr)
                           (updateOpts (make_staticOpts ps) sr)
                           (length infos + (length infos + length infos)) of
                      Inr ts \<Rightarrow> ts | Inl e \<Rightarrow> [])\<rparr>"
    by blast
  have b: "\<forall>d. Inr d \<in> set (base pl) \<longrightarrow> idxOffset d = None"
    by (auto simp add: pl fetchrawtasks_def fetchactiontasks_def fetchfallbacktasks_def
        then_value_def then_promise_def Let_def split: sum.splits)
  have f: "\<forall>d. Inr d \<in> set (fetch404 pl) \<longrightarrow> idxOffset d = Some (length (base pl))"
    by (auto simp add: pl fetch404tasks_Inr [OF ne] length_tasks then_value_def
        then_promise_def split: sum.splits if_splits)
  from b f show ?thesis by blast
qed

theorem fetchers_idxOffset_witness:
  "\<exists>pl t. fetchers ''/'' ow_resolving sample_request = (Inr pl, t)
     \<and> (\<exists>d1 d2. fetch404 pl = [Inr d1, Inr d2] \<and> idxOffset d1 = Some 3 \<and> idxOffset d2 = Some 3)
     \<and> (\<exists>d. base pl ! 0 = Inr d \<and> idxOffset d = None)"
proof -
  have gp: "getPathInfos ''/'' (or_default (req_path sample_request) ''/'')
              (or_default (rootPath sample_request) [])
              (split CHR '','' (or_default (content_index sample_request) ''index.html''))
            = Inr [\<lparr>path = ''/index.html'', name = ''index'', selector = [], ext = ''html'',
                    relPath = ''/index''\<rparr>]"
    by (simp add: sample_request_def or_default_def getPathInfos_root)
  have lg: "ow_logger sample_request = Some Logger" by (simp add: sample_request_def)
  obtain sr cr t where rp: "resolver_promises ow_resolving sample_request = (Inr sr, Inr cr, t)"
    using resolver_promises_fulfil [OF lg] by blast
  note f = fetchers_unfold [OF gp rp]
  from fetchers_idxOffset [OF f] show ?thesis
    by (simp add: f fetch404tasks_def fetchrawtasks_def then_value_def then_promise_def
        updateOpts_def)
qed

section \<open>Directory paths\<close>

lemma split_cons_nosep:
  "c \<notin> set s \<Longrightarrow> split c (s @ y) = (s @ hd (split c y)) # tl (split c y)"
proof (induction s)
  case Nil
  then show ?case using split_not_Nil [of c y] by simp
next
  case (Cons a s)
  then show ?case by (auto split: list.splits)
qed

lemma split_directory:
  assumes "list_all (\<lambda>s. CHR ''/'' \<notin> set s) segs"
  shows "split CHR ''/'' (concat (map (\<lambda>s. CHR ''/'' # s) segs) @ CHR ''/'' # r)
           = [] # segs @ split CHR ''/'' r"
  using assms
proof (induction segs)
  case Nil
  then show ?case by simp
next
  case (Cons s segs)
  then have ih: "split CHR ''/'' (concat (map (\<lambda>s. CHR ''/'' # s) segs) @ CHR ''/'' # r)
           = [] # segs @ split CHR ''/'' r" by simp
  from Cons.prems have ns: "CHR ''/'' \<notin> set s" by simp
  have "split CHR ''/'' (s @ concat (map (\<lambda>s. CHR ''/'' # s) segs) @ CHR ''/'' # r)
          = s # segs @ split CHR ''/'' r"
    using split_cons_nosep [OF ns, of "concat (map (\<lambda>s. CHR ''/'' # s) segs) @ CHR ''/'' # r"]
    by (simp add: ih)
  then show ?case by simp
qed

lemma normalize_segments_plain:
  "list_all plain_name xs \<Longrightarrow> normalize_segments b xs acc = rev acc @ xs"
  by (induction xs arbitrary: acc) (simp_all add: plain_name_def)

lemma join_concat: "xs \<noteq> [] \<Longrightarrow> CHR ''/'' # join xs = concat (map (\<lambda>s. CHR ''/'' # s) xs)"
  by (induction xs rule: join.induct) simp_all

lemma directory_hd: "directory segs \<noteq> [] \<and> hd (directory segs) = CHR ''/''"
  by (cases segs) (simp_all add: directory_def)

lemma path_resolve_directory:
  assumes "list_all plain_name segs" and "plain_name ix"
  shows "path_resolve cwd [directory segs, ix] = directory segs @ ix"
proof -
  from assms(2) have i: "ix \<noteq> []" "hd ix \<noteq> CHR ''/''" "CHR ''/'' \<notin> set ix"
    by (auto simp add: plain_name_def) (metis list.set_sel(1))
  from assms(1) have ns: "list_all (\<lambda>s. CHR ''/'' \<notin> set s) segs"
    by (simp add: list_all_iff plain_name_def)
  have loop: "resolve_loop [ix, directory segs, cwd] []
                = (directory segs @ CHR ''/'' # ix @ ''/'', True)"
    using i directory_hd [of segs] by simp
  have tail: "split CHR ''/'' (CHR ''/'' # ix @ ''/'') = [[], ix, []]"
    using split_append_sep [of "CHR ''/''" ix "[]"] i(3) by (simp add: split_no_sep)
  have "split CHR ''/'' (directory segs @ CHR ''/'' # ix @ ''/'')
          = [] # segs @ [[], ix, []]"
    using split_directory [OF ns, of "CHR ''/'' # ix @ ''/''"] tail
    by (simp add: directory_def)
  moreover have "normalize_segments False ([] # segs @ [[], ix, []]) [] = segs @ [ix]"
    using assms by (simp add: normalize_segments_append normalize_segments_plain plain_name_def)
  ultimately have "normalizeString (directory segs @ CHR ''/'' # ix @ ''/'') False
                     = join (segs @ [ix])"
    by (simp add: normalizeString_def)
  then have "path_resolve cwd [directory segs, ix] = CHR ''/'' # join (segs @ [ix])"
    by (simp add: path_resolve_def loop Let_def del: resolve_loop.simps)
  also have "\<dots> = directory segs @ ix"
    by (simp add: join_concat directory_def)
  finally show ?thesis .
qed

lemma replace_slashes_directory:
  assumes "list_all plain_name segs"
  shows "replace_slashes (directory segs) = directory segs"
proof (cases segs)
  case Nil
  then show ?thesis by (simp add: directory_def)
next
  case (Cons s ss)
  with assms have "s \<noteq> []" "hd s \<noteq> CHR ''/''"
    by (auto simp add: plain_name_def) (metis list.set_sel(1))
  then obtain a r where "s = a # r" "a \<noteq> CHR ''/''" by (cases s) auto
  with Cons show ?thesis by (simp add: directory_def)
qed

lemma unique_fold_distinct:
  "distinct (acc @ xs) \<Longrightarrow>
     foldl (\<lambda>retval item. if item \<in> set retval then retval else retval @ [item]) acc xs
       = acc @ xs"
  by (induction xs arbitrary: acc) simp_all

lemma unique_distinct: "distinct xs \<Longrightarrow> unique xs = xs"
  using unique_fold_distinct [of "[]" xs] by (simp add: unique_def)

lemma map_throw_all_Inr:
  "\<forall>x\<in>set xs. f x = Inr (g x) \<Longrightarrow> map_throw f xs = Inr (map g xs)"
  by (induction xs) simp_all

lemma resolve_loop_acc:
  "resolve_loop ps acc = (fst (resolve_loop ps []) @ acc, snd (resolve_loop ps []))"
proof (induction ps arbitrary: acc)
  case Nil
  then show ?case by simp
next
  case (Cons q ps)
  show ?case
  proof (cases "q = [] \<or> hd q = CHR ''/''")
    case True
    then show ?thesis using Cons [of acc] by auto
  next
    case False
    have a: "resolve_loop ps (q @ CHR ''/'' # acc)
           = (fst (resolve_loop ps []) @ q @ CHR ''/'' # acc, snd (resolve_loop ps []))"
      by (rule Cons)
    have b: "resolve_loop ps (q @ ''/'')
           = (fst (resolve_loop ps []) @ q @ ''/'', snd (resolve_loop ps []))"
      by (rule Cons)
    from False show ?thesis by (simp add: a b)
  qed
qed

lemma normalizeString_common:
  assumes "p = [] \<or> last p = CHR ''/''"
  shows "\<exists>x. (x = [] \<or> last x = CHR ''/'')
           \<and> (\<forall>ix. plain_name ix \<longrightarrow> normalizeString (p @ ix @ ''/'') b = x @ ix)"
proof -
  let ?S = "if p = [] then [] else split CHR ''/'' (butlast p)"
  let ?N = "normalize_segments b ?S []"
  let ?x = "if ?N = [] then [] else join ?N @ ''/''"
  have "normalizeString (p @ ix @ ''/'') b = ?x @ ix" if pl: "plain_name ix" for ix
  proof -
    from pl have ns: "CHR ''/'' \<notin> set ix" by (simp add: plain_name_def)
    have tail: "split CHR ''/'' (ix @ ''/'') = [ix, []]"
      using split_append_sep [of "CHR ''/''" ix "[]"] ns by (simp add: split_no_sep)
    have S: "split CHR ''/'' (p @ ix @ ''/'') = ?S @ [ix, []]"
    proof (cases "p = []")
      case True
      with tail show ?thesis by simp
    next
      case False
      with assms have "p = butlast p @ ''/''" by (metis append_butlast_last_id)
      then have "split CHR ''/'' (p @ ix @ ''/'') = split CHR ''/'' (butlast p @ CHR ''/'' # ix @ ''/'')"
        by (metis append_Cons append_Nil append_assoc)
      also have "\<dots> = split CHR ''/'' (butlast p) @ [ix, []]"
        using split_append_sep [of "CHR ''/''" "butlast p" "ix @ ''/''"] tail by simp
      finally show ?thesis using False by simp
    qed
    have "normalize_segments b (?S @ [ix, []]) [] = ?N @ [ix]"
      using pl by (simp add: normalize_segments_append plain_name_def)
    then show ?thesis
      by (simp add: normalizeString_def S join_snoc del: split.simps)
  qed
  moreover have "?x = [] \<or> last ?x = CHR ''/''" by simp
  ultimately show ?thesis by blast
qed

lemma path_resolve_common:
  "\<exists>X. (X = [] \<or> last X = CHR ''/'')
     \<and> (\<forall>ix. plain_name ix \<longrightarrow> path_resolve cwd [d, ix] = X @ ix)"
proof -
  obtain p a where pa: "resolve_loop [d, cwd] [] = (p, a)"
    by (cases "resolve_loop [d, cwd] []")
  have l: "p = [] \<or> last p = CHR ''/''"
    using resolve_loop_shape [of "[d, cwd]" "[]"] pa by auto
  obtain x where x: "x = [] \<or> last x = CHR ''/''"
    and n: "\<forall>ix. plain_name ix \<longrightarrow> normalizeString (p @ ix @ ''/'') (\<not> a) = x @ ix"
    using normalizeString_common [OF l] by blast
  let ?X = "if a then CHR ''/'' # x else x"
  have "path_resolve cwd [d, ix] = ?X @ ix" if pl: "plain_name ix" for ix
  proof -
    from pl have i: "ix \<noteq> []" "hd ix \<noteq> CHR ''/''"
      by (auto simp add: plain_name_def) (metis list.set_sel(1))
    have e: "resolve_loop [ix, d, cwd] [] = (p @ ix @ ''/'', a)"
    proof -
      have "resolve_loop [ix, d, cwd] [] = resolve_loop [d, cwd] (ix @ ''/'')"
        using i by simp
      also have "\<dots> = (p @ ix @ ''/'', a)"
        by (subst resolve_loop_acc) (simp add: pa del: resolve_loop.simps)
      finally show ?thesis .
    qed
    from n pl have nn: "normalizeString (p @ ix @ ''/'') (\<not> a) = x @ ix" by blast
    show ?thesis
    proof (cases a)
      case True
      with nn show ?thesis
        by (simp add: path_resolve_def e Let_def del: resolve_loop.simps)
    next
      case False
      with nn i show ?thesis
        by (simp add: path_resolve_def e Let_def del: resolve_loop.simps)
    qed
  qed
  moreover from x have "?X = [] \<or> last ?X = CHR ''/''" by auto
  ultimately show ?thesis by blast
qed

lemma lastIndexOf_last:
  assumes "s \<noteq> []" and "last s = c"
  shows "lastIndexOf s c = int (length s) - 1"
proof -
  from assms have "s = butlast s @ [c]" by (metis append_butlast_last_id)
  then have "lastIndexOf s c = lastIndexOf (butlast s @ [c]) c" by simp
  also have "\<dots> = int (length (butlast s))" by (simp add: lastIndexOf_append)
  finally show ?thesis using assms(1) by (simp add: of_nat_diff Suc_leI)
qed

lemma urls_common:
  assumes names: "list_all index_name indices"
    and u: "urlPath = [] \<or> endsWith urlPath ''/''"
  shows "\<exists>X. (X = [] \<or> last X = CHR ''/'')
           \<and> urls cwd urlPath indices = map (\<lambda>ix. X @ ix) indices
           \<and> (\<forall>ix. plain_name ix \<longrightarrow>
                path_resolve cwd [if urlPath = [] then ''/'' else replace_slashes urlPath, ix]
                  = X @ ix)"
proof -
  let ?u = "replace_slashes urlPath"
  let ?d = "if urlPath = [] then ''/'' else ?u"
  obtain X where X: "X = [] \<or> last X = CHR ''/''"
    and r: "\<forall>ix. plain_name ix \<longrightarrow> path_resolve cwd [?d, ix] = X @ ix"
    using path_resolve_common [of cwd ?d] by blast
  have le: "lastIndexOf ?u CHR ''.'' \<le> lastIndexOf ?u CHR ''/''"
  proof (cases "urlPath = []")
    case True
    then show ?thesis by simp
  next
    case False
    with u have "endsWith ?u ''/''" by (simp add: endsWith_replace_slashes)
    then have "lastIndexOf ?u CHR ''/'' = int (length ?u) - 1"
      by (simp add: endsWith_slash lastIndexOf_last)
    with lastIndexOf_bounds [of ?u "CHR ''.''"] show ?thesis by simp
  qed
  have "map (\<lambda>index. path_resolve cwd [?d, index]) indices = map (\<lambda>ix. X @ ix) indices"
    using names r by (simp add: list_all_iff index_name_def)
  then have "urls cwd urlPath indices = map (\<lambda>ix. X @ ix) indices"
    using le u by (simp add: urls_def Let_def endsWith_replace_slashes replace_slashes_Nil)
  with X r show ?thesis by blast
qed

lemma substring_shift:
  assumes "0 \<le> a" and "0 \<le> b"
  shows "substring (X @ s) (int (length X) + a) (int (length X) + b) = substring s a b"
proof -
  have a: "nat (int (length X) + a) = length X + nat a" using assms by simp
  have b: "nat (int (length X) + b) = length X + nat b" using assms by simp
  show ?thesis
    by (simp add: substring_def clamp_index_def Let_def a b min_def max_def)
qed

lemma substring_shift0:
  assumes "0 \<le> b"
  shows "substring (X @ s) 0 (int (length X) + b) = X @ substring s 0 b"
proof -
  have b: "nat (int (length X) + b) = length X + nat b" using assms by simp
  show ?thesis
    by (simp add: substring_def clamp_index_def Let_def b min_def max_def)
qed

lemma substring_from_shift:
  assumes "0 \<le> a"
  shows "substring_from (X @ s) (int (length X) + a) = substring_from s a"
proof -
  have a: "nat (int (length X) + a) = length X + nat a" using assms by simp
  show ?thesis
    by (simp add: substring_from_def clamp_index_def a min_def)
qed

lemma path_info_of_bare:
  assumes "index_name ix"
  shows "\<exists>p. path_info_of [] ix = Inr p \<and> path p = ix
           \<and> ext p = substring_from ix (lastIndexOf ix CHR ''.'' + 1)"
proof -
  from assms have d: "CHR ''.'' \<in> set ix" and s: "CHR ''/'' \<notin> set ix"
    by (simp_all add: index_name_def plain_name_def)
  from d have "0 \<le> lastIndexOf ix CHR ''.''" by (rule lastIndexOf_in)
  moreover from s have "lastIndexOf ix CHR ''/'' = -1" by (rule lastIndexOf_notin)
  ultimately show ?thesis
    by (simp add: path_info_of_def Let_def)
qed

lemma path_info_of_shift:
  assumes X: "X = [] \<or> last X = CHR ''/''" and ix: "index_name ix"
    and p: "path_info_of [] ix = Inr p"
  shows "path_info_of mount (X @ ix)
     = Inr \<lparr>path = (if mount \<noteq> [] \<and> mount \<noteq> ''/''
                       \<and> startsWith (X @ relPath p @ ''/'') (mount @ ''/'')
                    then substring_from (X @ ix) (int (length mount)) else X @ ix),
            name = name p, selector = selector p, ext = ext p,
            relPath = (if mount \<noteq> [] \<and> mount \<noteq> ''/''
                          \<and> startsWith (X @ relPath p @ ''/'') (mount @ ''/'')
                       then substring_from (X @ relPath p) (int (length mount))
                       else X @ relPath p)\<rparr>"
proof -
  from ix have d: "CHR ''.'' \<in> set ix" and s: "CHR ''/'' \<notin> set ix"
    by (simp_all add: index_name_def plain_name_def)
  define k where "k = lastIndexOf ix CHR ''.''"
  define r0 where "r0 = substring ix 0 k"
  define m where "m = lastIndexOf r0 CHR ''.''"
  from d have k0: "0 \<le> k" unfolding k_def by (rule lastIndexOf_in)
  from s have sl: "lastIndexOf ix CHR ''/'' = -1" by (rule lastIndexOf_notin)
  have m1: "-1 \<le> m" unfolding m_def using lastIndexOf_bounds [of r0 "CHR ''.''"] by simp
  have dot: "lastIndexOf (X @ ix) CHR ''.'' = int (length X) + k"
    using d by (simp add: lastIndexOf_append k_def)
  have slash: "lastIndexOf (X @ ix) CHR ''/'' = int (length X) - 1"
  proof (cases "X = []")
    case True
    with sl show ?thesis by simp
  next
    case False
    with X have "lastIndexOf X CHR ''/'' = int (length X) - 1" by (simp add: lastIndexOf_last)
    with s show ?thesis by (simp add: lastIndexOf_append)
  qed
  have rel0: "substring (X @ ix) 0 (int (length X) + k) = X @ r0"
    unfolding r0_def using k0 by (rule substring_shift0)
  have seldot: "lastIndexOf (X @ r0) CHR ''.''
                  = (if CHR ''.'' \<in> set r0 then int (length X) + m else lastIndexOf X CHR ''.'')"
    by (simp add: lastIndexOf_append m_def)
  have mpos: "CHR ''.'' \<in> set r0 \<longleftrightarrow> 0 \<le> m"
  proof (cases "CHR ''.'' \<in> set r0")
    case True
    then show ?thesis unfolding m_def using lastIndexOf_in [of "CHR ''.''" r0] by simp
  next
    case False
    then show ?thesis unfolding m_def using lastIndexOf_notin [of "CHR ''.''" r0] by simp
  qed
  have xb: "lastIndexOf X CHR ''.'' \<le> int (length X) - 1"
    using lastIndexOf_bounds [of X "CHR ''.''"] by simp
  have bare: "path_info_of [] ix
     = Inr \<lparr>path = ix,
            name = (if 0 \<le> m then substring ix 0 m else substring ix 0 k),
            selector = (if 0 \<le> m then substring_from r0 (m + 1) else []),
            ext = substring_from ix (k + 1),
            relPath = (if 0 \<le> m then substring r0 0 m else r0)\<rparr>"
    using k0 m1 sl
    by (simp add: path_info_of_def Let_def k_def [symmetric] r0_def [symmetric] m_def [symmetric])
  with p have pe: "p = \<lparr>path = ix,
            name = (if 0 \<le> m then substring ix 0 m else substring ix 0 k),
            selector = (if 0 \<le> m then substring_from r0 (m + 1) else []),
            ext = substring_from ix (k + 1),
            relPath = (if 0 \<le> m then substring r0 0 m else r0)\<rparr>"
    by simp
  have e1: "substring_from (X @ ix) (int (length X) + k + 1) = substring_from ix (k + 1)"
    using substring_from_shift [of "k + 1" X ix] k0 by (simp add: add.assoc)
  have n0: "substring (X @ ix) (int (length X)) (int (length X) + k) = substring ix 0 k"
    using substring_shift [of 0 k X ix] k0 by simp
  have n1: "0 \<le> m \<Longrightarrow> substring (X @ ix) (int (length X)) (int (length X) + m) = substring ix 0 m"
    using substring_shift [of 0 m X ix] by simp
  have s1: "0 \<le> m \<Longrightarrow> substring_from (X @ r0) (int (length X) + m + 1) = substring_from r0 (m + 1)"
    using substring_from_shift [of "m + 1" X r0] by (simp add: add.assoc)
  have r1: "0 \<le> m \<Longrightarrow> substring (X @ r0) 0 (int (length X) + m) = X @ substring r0 0 m"
    by (rule substring_shift0)
  show ?thesis
  proof (cases "0 \<le> m")
    case True
    then have sd: "lastIndexOf (X @ r0) CHR ''.'' = int (length X) + m"
      using seldot mpos by simp
    from True k0 show ?thesis
      by (simp add: path_info_of_def Let_def dot slash rel0 sd e1 n1 s1 r1 pe)
  next
    case False
    then have sd: "lastIndexOf (X @ r0) CHR ''.'' = lastIndexOf X CHR ''.''"
      using seldot mpos by simp
    from False k0 xb show ?thesis
      by (simp add: path_info_of_def Let_def dot slash rel0 sd e1 n0 pe)
  qed
qed

lemma path_info_of_samples:
  "path_info_of [] ''index.html''
     = Inr \<lparr>path = ''index.html'', name = ''index'', selector = [], ext = ''html'',
            relPath = ''index''\<rparr>"
  "path_info_of [] ''README.md''
     = Inr \<lparr>path = ''README.md'', name = ''README'', selector = [], ext = ''md'',
            relPath = ''README''\<rparr>"
  "path_info_of [] ''page.print.html''
     = Inr \<lparr>path = ''page.print.html'', name = ''page'', selector = ''print'', ext = ''html'',
            relPath = ''page''\<rparr>"
  by code_simp+

lemma map_two: "length xs = 2 \<Longrightarrow> map f xs = [f (xs ! 0), f (xs ! 1)]"
  by (cases xs; cases "tl xs") auto

text \<open>
  C7, as the code has it. The claim is one descriptor per index name, each with the
  directory path before it, for every path that ends in a slash. Two equal index
  names give one descriptor, and so do \<^verbatim>\<open>index.html\<close> and \<^verbatim>\<open>./index.html\<close>; an
  index name without an extension makes \<^verbatim>\<open>getPathInfos\<close> throw; under the mount
  \<^verbatim>\<open>/docs\<close> the path field of \<^verbatim>\<open>/docs/\<close> is \<^verbatim>\<open>/index.html\<close>; and the paths
  \<^verbatim>\<open>/docs/../\<close>, \<^verbatim>\<open>/a//\<close> and \<^verbatim>\<open>/./\<close> are normalised, and the relative path
  \<^verbatim>\<open>docs/\<close> is resolved against the working directory, so that none of them is a
  prefix of the path field.
\<close>

theorem getPathInfos_directory_failures:
  "getPathInfos ''/'' ''/'' [] [''index.html'', ''index.html'']
     = Inr [\<lparr>path = ''/index.html'', name = ''index'', selector = [], ext = ''html'',
              relPath = ''/index''\<rparr>]
   \<and> getPathInfos ''/'' ''/docs/'' [] [''index'']
       = Inl (Error ''directory index must have an extension.'')
   \<and> getPathInfos ''/'' ''/docs/'' ''/docs'' [''index.html'']
       = Inr [\<lparr>path = ''/index.html'', name = ''index'', selector = [], ext = ''html'',
                relPath = ''/index''\<rparr>]
   \<and> getPathInfos ''/'' ''/docs/../'' [] [''index.html'']
       = Inr [\<lparr>path = ''/index.html'', name = ''index'', selector = [], ext = ''html'',
                relPath = ''/index''\<rparr>]
   \<and> getPathInfos ''/'' ''/'' [] [''index.html'', ''./index.html'']
       = Inr [\<lparr>path = ''/index.html'', name = ''index'', selector = [], ext = ''html'',
                relPath = ''/index''\<rparr>]
   \<and> getPathInfos ''/'' ''/a//'' [] [''index.html'']
       = Inr [\<lparr>path = ''/a/index.html'', name = ''index'', selector = [], ext = ''html'',
                relPath = ''/a/index''\<rparr>]
   \<and> getPathInfos ''/'' ''/./'' [] [''index.html'']
       = Inr [\<lparr>path = ''/index.html'', name = ''index'', selector = [], ext = ''html'',
                relPath = ''/index''\<rparr>]
   \<and> getPathInfos ''/'' ''docs/'' [] [''index.html'']
       = Inr [\<lparr>path = ''/docs/index.html'', name = ''index'', selector = [], ext = ''html'',
                relPath = ''/docs/index''\<rparr>]"
  by code_simp

text \<open>
  C7, amended. For every path that is empty or ends in a slash, every working
  directory, every mount, and every list of distinct index names that are plain
  file names with a dot, \<^verbatim>\<open>getPathInfos\<close> returns exactly as many descriptors as
  there are index names, one per index name in the given order. There is a
  directory \<open>X\<close>, the same for all of them, such that the \<open>i\<close>-th descriptor
  is the one of the candidate \<open>X @ indices ! i\<close>: its name, selector and extension
  are those of the \<open>i\<close>-th index name by itself (the extension is what follows
  its last dot); its path field is \<open>X\<close> followed by the index name, and its
  \<^verbatim>\<open>relPath\<close> is \<open>X\<close> followed by that of the index name, both without their
  first \<^verbatim>\<open>mount.length\<close> characters when the mount is stripped, which is the case
  when the mount is neither empty nor \<^verbatim>\<open>/\<close> and \<^verbatim>\<open>relPath/\<close> begins with
  \<^verbatim>\<open>mount/\<close>. When the path is empty or a normalised absolute path
  \<^verbatim>\<open>/s1/.../sn/\<close>, \<open>X\<close> is that path (\<^verbatim>\<open>/\<close> for the empty path); so, when moreover
  the mount is empty or \<^verbatim>\<open>/\<close>, every path field is the directory path followed by
  the index name and has the given path as a prefix.
\<close>

theorem getPathInfos_directory:
  assumes names: "list_all index_name indices" and dist: "distinct indices"
    and u: "urlPath = [] \<or> endsWith urlPath ''/''"
  shows "\<exists>infos X. getPathInfos cwd urlPath mount indices = Inr infos
           \<and> length infos = length indices
           \<and> (X = [] \<or> last X = CHR ''/'')
           \<and> (\<forall>i<length indices. \<exists>p.
                 path_info_of [] (indices ! i) = Inr p
                 \<and> name (infos ! i) = name p \<and> selector (infos ! i) = selector p
                 \<and> ext (infos ! i) = ext p
                 \<and> ext (infos ! i)
                     = substring_from (indices ! i) (lastIndexOf (indices ! i) CHR ''.'' + 1)
                 \<and> (if mount \<noteq> [] \<and> mount \<noteq> ''/''
                        \<and> startsWith (X @ relPath p @ ''/'') (mount @ ''/'')
                     then path (infos ! i)
                            = substring_from (X @ indices ! i) (int (length mount))
                        \<and> relPath (infos ! i)
                            = substring_from (X @ relPath p) (int (length mount))
                     else path (infos ! i) = X @ indices ! i
                        \<and> relPath (infos ! i) = X @ relPath p))
           \<and> (\<forall>segs. list_all plain_name segs
                   \<and> (urlPath = directory segs \<or> (urlPath = [] \<and> segs = []))
                 \<longrightarrow> X = directory segs
                   \<and> (mount = [] \<or> mount = ''/'' \<longrightarrow>
                        (\<forall>i<length indices. path (infos ! i) = directory segs @ indices ! i
                            \<and> prefix urlPath (path (infos ! i)))))"
proof -
  let ?d = "if urlPath = [] then ''/'' else replace_slashes urlPath"
  obtain X where X: "X = [] \<or> last X = CHR ''/''"
    and us: "urls cwd urlPath indices = map (\<lambda>ix. X @ ix) indices"
    and r: "\<forall>ix. plain_name ix \<longrightarrow> path_resolve cwd [?d, ix] = X @ ix"
    using urls_common [OF names u, of cwd] by blast
  let ?us = "map (\<lambda>ix. X @ ix) indices"
  let ?info = "\<lambda>x. projr (path_info_of mount x)"
  let ?infos = "map ?info ?us"
  from dist have "distinct ?us" by (simp add: distinct_map inj_on_def)
  then have un: "unique (urls cwd urlPath indices) = ?us"
    by (simp add: us unique_distinct)
  have nm: "index_name ix" if "ix \<in> set indices" for ix
    using names that by (simp add: list_all_iff)
  have he: "has_extension (X @ ix)" if "ix \<in> set indices" for ix
    using nm [OF that] by (simp add: has_extension_suffix index_name_def plain_name_def)
  have "\<forall>x\<in>set ?us. path_info_of mount x = Inr (?info x)"
  proof
    fix x
    assume "x \<in> set ?us"
    then obtain ix where "ix \<in> set indices" and "x = X @ ix" by auto
    with he have "has_extension x" by simp
    then show "path_info_of mount x = Inr (?info x)"
      by (subst path_info_of_Inl) simp
  qed
  then have "map_throw (path_info_of mount) ?us = Inr ?infos"
    by (rule map_throw_all_Inr)
  then have g: "getPathInfos cwd urlPath mount indices = Inr ?infos"
    by (simp add: getPathInfos_def un)
  have len: "length ?infos = length indices" by simp
  have each: "\<exists>p.
                 path_info_of [] (indices ! i) = Inr p
                 \<and> name (?infos ! i) = name p \<and> selector (?infos ! i) = selector p
                 \<and> ext (?infos ! i) = ext p
                 \<and> ext (?infos ! i)
                     = substring_from (indices ! i) (lastIndexOf (indices ! i) CHR ''.'' + 1)
                 \<and> (if mount \<noteq> [] \<and> mount \<noteq> ''/''
                        \<and> startsWith (X @ relPath p @ ''/'') (mount @ ''/'')
                     then path (?infos ! i)
                            = substring_from (X @ indices ! i) (int (length mount))
                        \<and> relPath (?infos ! i)
                            = substring_from (X @ relPath p) (int (length mount))
                     else path (?infos ! i) = X @ indices ! i
                        \<and> relPath (?infos ! i) = X @ relPath p)"
    if i: "i < length indices" for i
  proof -
    from i have n: "index_name (indices ! i)" by (simp add: nm)
    then obtain p where p: "path_info_of [] (indices ! i) = Inr p"
      and e: "ext p = substring_from (indices ! i) (lastIndexOf (indices ! i) CHR ''.'' + 1)"
      using path_info_of_bare by blast
    have m: "?infos ! i = ?info (X @ indices ! i)" using i by simp
    note sh = path_info_of_shift [OF X n p, of mount]
    show ?thesis
      unfolding m sh using p e by auto
  qed
  have norm: "X = directory segs
                   \<and> (mount = [] \<or> mount = ''/'' \<longrightarrow>
                        (\<forall>i<length indices. path (?infos ! i) = directory segs @ indices ! i
                            \<and> prefix urlPath (path (?infos ! i))))"
    if s: "list_all plain_name segs"
      and v: "urlPath = directory segs \<or> (urlPath = [] \<and> segs = [])" for segs
  proof -
    have pn: "plain_name ''x''" by (simp add: plain_name_def)
    have d: "?d = directory segs"
    proof (cases "urlPath = []")
      case True
      with v directory_hd [of segs] have "segs = []" by auto
      with True show ?thesis by (simp add: directory_def)
    next
      case False
      with v have "urlPath = directory segs" by blast
      with False s show ?thesis by (simp add: replace_slashes_directory)
    qed
    from r pn have "path_resolve cwd [?d, ''x''] = X @ ''x''" by blast
    moreover have "path_resolve cwd [directory segs, ''x''] = directory segs @ ''x''"
      using s pn by (rule path_resolve_directory)
    ultimately have Xd: "X = directory segs" unfolding d by simp
    have pre: "prefix urlPath (directory segs @ ix)" for ix
      using v by auto
    have "path (?infos ! i) = directory segs @ indices ! i
            \<and> prefix urlPath (path (?infos ! i))"
      if t: "mount = [] \<or> mount = ''/''" and i: "i < length indices" for i
    proof -
      from each [OF i] t have "path (?infos ! i) = X @ indices ! i" by auto
      with Xd pre show ?thesis by simp
    qed
    with Xd show ?thesis by blast
  qed
  show ?thesis
    apply (rule exI [where x = ?infos])
    apply (rule exI [where x = X])
    apply (intro conjI allI impI)
    subgoal by (rule g)
    subgoal by (rule len)
    subgoal by (rule X)
    subgoal for i by (rule each)
    subgoal for segs using norm [of segs] by blast
    subgoal for segs i using norm [of segs] by blast
    subgoal for segs i using norm [of segs] by blast
    done
qed

theorem getPathInfos_directory_witness:
  "list_all index_name [''index.html'', ''README.md'']
   \<and> distinct [''index.html'', ''README.md'']
   \<and> endsWith ''/docs/api/'' ''/''
   \<and> (\<exists>infos. getPathInfos ''/'' ''/docs/api/'' ''/docs'' [''index.html'', ''README.md'']
                   = Inr infos
         \<and> map path infos = [''/api/index.html'', ''/api/README.md'']
         \<and> map name infos = [''index'', ''README'']
         \<and> map ext infos = [''html'', ''md'']
         \<and> map relPath infos = [''/api/index'', ''/api/README''])
   \<and> (\<exists>infos. getPathInfos ''/'' ''/docs/api/'' [] [''index.html'', ''README.md''] = Inr infos
         \<and> map path infos = [''/docs/api/index.html'', ''/docs/api/README.md'']
         \<and> prefix ''/docs/api/'' (path (infos ! 0)) \<and> prefix ''/docs/api/'' (path (infos ! 1)))
   \<and> list_all index_name [''page.print.html'', ''index.html'']
   \<and> endsWith ''//docs/../api/./'' ''/''
   \<and> (\<exists>infos. getPathInfos ''/'' ''//docs/../api/./'' ''/x''
                   [''page.print.html'', ''index.html''] = Inr infos
         \<and> map name infos = [''page'', ''index'']
         \<and> map selector infos = [''print'', []]
         \<and> map ext infos = [''html'', ''html''])"
proof -
  let ?I = "[''index.html'', ''README.md'']"
  let ?J = "[''page.print.html'', ''index.html'']"
  let ?u = "''/docs/api/''"
  have n1: "list_all index_name ?I"
    by (simp add: index_name_def plain_name_def)
  have n2: "list_all index_name ?J"
    by (simp add: index_name_def plain_name_def)
  have d1: "distinct ?I" by simp
  have d2: "distinct ?J" by simp
  have e1: "endsWith ?u ''/''" by (simp add: endsWith_def)
  have e2: "endsWith ''//docs/../api/./'' ''/''" by (simp add: endsWith_def)
  have s: "list_all plain_name [''docs'', ''api'']" by (simp add: plain_name_def)
  have dir: "?u = directory [''docs'', ''api'']" by (simp add: directory_def)
  have i0: "0 < length ?I" and i1: "1 < length ?I" by simp_all
  have j0: "0 < length ?J" and j1: "1 < length ?J" by simp_all
  have a: "\<exists>infos. getPathInfos ''/'' ?u ''/docs'' ?I = Inr infos
         \<and> map path infos = [''/api/index.html'', ''/api/README.md'']
         \<and> map name infos = [''index'', ''README'']
         \<and> map ext infos = [''html'', ''md'']
         \<and> map relPath infos = [''/api/index'', ''/api/README'']"
  proof -
    let ?m = "''/docs''"
    note th = getPathInfos_directory [OF n1 d1 disjI2 [OF e1], of "''/''" ?m]
    then obtain infos X where g: "getPathInfos ''/'' ?u ?m ?I = Inr infos"
      and l: "length infos = length ?I"
      and each: "\<forall>i<length ?I. \<exists>p.
                 path_info_of [] (?I ! i) = Inr p
                 \<and> name (infos ! i) = name p \<and> selector (infos ! i) = selector p
                 \<and> ext (infos ! i) = ext p
                 \<and> ext (infos ! i)
                     = substring_from (?I ! i) (lastIndexOf (?I ! i) CHR ''.'' + 1)
                 \<and> (if ?m \<noteq> [] \<and> ?m \<noteq> ''/''
                        \<and> startsWith (X @ relPath p @ ''/'') (?m @ ''/'')
                     then path (infos ! i)
                            = substring_from (X @ ?I ! i) (int (length ?m))
                        \<and> relPath (infos ! i)
                            = substring_from (X @ relPath p) (int (length ?m))
                     else path (infos ! i) = X @ ?I ! i
                        \<and> relPath (infos ! i) = X @ relPath p)"
      and nrm: "\<forall>segs. list_all plain_name segs
                   \<and> (?u = directory segs \<or> (?u = [] \<and> segs = []))
                 \<longrightarrow> X = directory segs
                   \<and> (?m = [] \<or> ?m = ''/'' \<longrightarrow>
                        (\<forall>i<length ?I. path (infos ! i) = directory segs @ ?I ! i
                            \<and> prefix ?u (path (infos ! i))))"
      by (elim exE conjE) (rule that)
    note nrm [rule_format, OF conjI [OF s disjI1 [OF dir]], THEN conjunct1]
    then have X: "X = ''/docs/api/''" by (simp add: directory_def)
    from each [rule_format, OF i0]
    have a0: "name (infos ! 0) = ''index'' \<and> ext (infos ! 0) = ''html''
          \<and> path (infos ! 0) = ''/api/index.html'' \<and> relPath (infos ! 0) = ''/api/index''"
      unfolding X
      by (simp add: path_info_of_samples startsWith_def substring_from_def clamp_index_def)
    from each [rule_format, OF i1]
    have a1: "name (infos ! 1) = ''README'' \<and> ext (infos ! 1) = ''md''
          \<and> path (infos ! 1) = ''/api/README.md'' \<and> relPath (infos ! 1) = ''/api/README''"
      unfolding X
      by (simp add: path_info_of_samples startsWith_def substring_from_def clamp_index_def)
    from l have l2: "length infos = 2" by simp
    from g a0 a1 show ?thesis by (simp add: map_two [OF l2])
  qed
  have b: "\<exists>infos. getPathInfos ''/'' ?u [] ?I = Inr infos
         \<and> map path infos = [''/docs/api/index.html'', ''/docs/api/README.md'']
         \<and> prefix ?u (path (infos ! 0)) \<and> prefix ?u (path (infos ! 1))"
  proof -
    let ?m = "[] :: string"
    note th = getPathInfos_directory [OF n1 d1 disjI2 [OF e1], of "''/''" ?m]
    then obtain infos X where g: "getPathInfos ''/'' ?u ?m ?I = Inr infos"
      and l: "length infos = length ?I"
      and nrm: "\<forall>segs. list_all plain_name segs
                   \<and> (?u = directory segs \<or> (?u = [] \<and> segs = []))
                 \<longrightarrow> X = directory segs
                   \<and> (?m = [] \<or> ?m = ''/'' \<longrightarrow>
                        (\<forall>i<length ?I. path (infos ! i) = directory segs @ ?I ! i
                            \<and> prefix ?u (path (infos ! i))))"
      by (elim exE conjE) (rule that)
    note all = nrm [rule_format, OF conjI [OF s disjI1 [OF dir]], THEN conjunct2, THEN mp,
        OF disjI1 [OF refl]]
    from all [rule_format, OF i0]
    have b0: "path (infos ! 0) = ''/docs/api/index.html'' \<and> prefix ?u (path (infos ! 0))"
      by (simp add: directory_def)
    from all [rule_format, OF i1]
    have b1: "path (infos ! 1) = ''/docs/api/README.md'' \<and> prefix ?u (path (infos ! 1))"
      by (simp add: directory_def)
    from l have l2: "length infos = 2" by simp
    from g b0 b1 show ?thesis by (simp add: map_two [OF l2])
  qed
  have c: "\<exists>infos. getPathInfos ''/'' ''//docs/../api/./'' ''/x'' ?J = Inr infos
         \<and> map name infos = [''page'', ''index'']
         \<and> map selector infos = [''print'', []]
         \<and> map ext infos = [''html'', ''html'']"
  proof -
    let ?m = "''/x''"
    let ?I = ?J
    note th = getPathInfos_directory [OF n2 d2 disjI2 [OF e2], of "''/''" ?m]
    then obtain infos X where g: "getPathInfos ''/'' ''//docs/../api/./'' ?m ?I = Inr infos"
      and l: "length infos = length ?I"
      and each: "\<forall>i<length ?I. \<exists>p.
                 path_info_of [] (?I ! i) = Inr p
                 \<and> name (infos ! i) = name p \<and> selector (infos ! i) = selector p
                 \<and> ext (infos ! i) = ext p
                 \<and> ext (infos ! i)
                     = substring_from (?I ! i) (lastIndexOf (?I ! i) CHR ''.'' + 1)
                 \<and> (if ?m \<noteq> [] \<and> ?m \<noteq> ''/''
                        \<and> startsWith (X @ relPath p @ ''/'') (?m @ ''/'')
                     then path (infos ! i)
                            = substring_from (X @ ?I ! i) (int (length ?m))
                        \<and> relPath (infos ! i)
                            = substring_from (X @ relPath p) (int (length ?m))
                     else path (infos ! i) = X @ ?I ! i
                        \<and> relPath (infos ! i) = X @ relPath p)"
      by (elim exE conjE) (rule that)
    from each [rule_format, OF j0]
    have c0: "name (infos ! 0) = ''page'' \<and> selector (infos ! 0) = ''print''
          \<and> ext (infos ! 0) = ''html''"
      by (elim exE conjE) (simp add: path_info_of_samples)
    from each [rule_format, OF j1]
    have c1: "name (infos ! 1) = ''index'' \<and> selector (infos ! 1) = []
          \<and> ext (infos ! 1) = ''html''"
      by (elim exE conjE) (simp add: path_info_of_samples)
    from l have l2: "length infos = 2" by simp
    from g c0 c1 show ?thesis by (simp add: map_two [OF l2])
  qed
  from n1 d1 e1 a b n2 e2 c show ?thesis by (intro conjI)
qed

end
